theory Spec2Isabelle
  imports Complex_Main "HOL-Library.Char_ord" "HOL-Library.List_Lexorder"
    "HOL-Library.Option_ord" "HOL-Library.Product_Lexorder" "HOL-Library.AList"
begin

section \<open>Values: decimals, timestamps, errors\<close>

text \<open>
  Python's \<^verbatim>\<open>Decimal\<close> values are modelled by their numeric value, a rational.  Every
  arithmetic operation of \<^verbatim>\<open>decimal\<close> returns the exact result rounded by the context
  (28 significant digits by default); the rounding is the parameter \<open>rnd\<close> of the model,
  so that every statement proved for all \<open>rnd\<close> holds for the context's rounding and for
  exact arithmetic alike.  Comparisons are exact.  Division by zero raises.

  A \<^verbatim>\<open>datetime\<close> is the number of microseconds since 1970-01-01T00:00:00 in the
  configured time zone, so \<^verbatim>\<open>replace(microsecond=0)\<close> rounds down to a multiple of
  one million.
\<close>

type_synonym decimal = rat

type_synonym datetime = int

datatype error =
    ValueError string
  | KeyError
  | ZeroDivisionError
  | InvalidOperation
  | TypeError
  | IntegrityError
  | DataError
  | OutOfDateVersionException
  | CannotPersistAggregateView
  | SubscriberError

definition dec_add :: "(rat \<Rightarrow> rat) \<Rightarrow> decimal \<Rightarrow> decimal \<Rightarrow> decimal" where
  "dec_add rnd a b = rnd (a + b)"

definition dec_sub :: "(rat \<Rightarrow> rat) \<Rightarrow> decimal \<Rightarrow> decimal \<Rightarrow> decimal" where
  "dec_sub rnd a b = rnd (a - b)"

definition dec_mul :: "(rat \<Rightarrow> rat) \<Rightarrow> decimal \<Rightarrow> decimal \<Rightarrow> decimal" where
  "dec_mul rnd a b = rnd (a * b)"

definition dec_div :: "(rat \<Rightarrow> rat) \<Rightarrow> decimal \<Rightarrow> decimal \<Rightarrow> error + decimal" where
  "dec_div rnd a b =
     (if b = 0 then (if a = 0 then Inl InvalidOperation else Inl ZeroDivisionError)
      else Inr (rnd (a / b)))"

text \<open>\<^verbatim>\<open>sum(xs, start=s)\<close>: a left fold of \<^verbatim>\<open>+\<close> from the start value.\<close>

definition dec_sum :: "(rat \<Rightarrow> rat) \<Rightarrow> decimal \<Rightarrow> decimal list \<Rightarrow> decimal" where
  "dec_sum rnd s xs = foldl (dec_add rnd) s xs"

definition replace_microsecond_0 :: "datetime \<Rightarrow> datetime" where
  "replace_microsecond_0 t = t - t mod 1000000"

text \<open>
  \<^verbatim>\<open>timezone.make_aware(datetime(year=1970, month=1, day=1, hour=0, minute=0, second=0))\<close>,
  the timestamp \<^verbatim>\<open>WineLot.create\<close> gives to every creation event.
\<close>

definition creation_time :: datetime where
  "creation_time = 0"

section \<open>winemaking/types.py\<close>

datatype lot_component = LotComponent string string int

datatype component_amount = ComponentAmount lot_component decimal

text \<open>
  A \<^verbatim>\<open>dict\<close> keeps its keys in insertion order, and assigning to a key that is present
  replaces the value in place: an association list with \<open>AList.update\<close>.
\<close>

type_synonym components_dict = "(lot_component \<times> decimal) list"

datatype composition = Composition components_dict

fun components :: "composition \<Rightarrow> components_dict" where
  "components (Composition cs) = cs"

text \<open>
  \<^verbatim>\<open>Composition.validate_percentages\<close>: the model validator that pydantic runs whenever a
  \<^verbatim>\<open>Composition\<close> is constructed.  \<^verbatim>\<open>sum\<close> starts from the integer 0.
\<close>

definition total_percentage :: "(rat \<Rightarrow> rat) \<Rightarrow> components_dict \<Rightarrow> decimal" where
  "total_percentage rnd cs = dec_sum rnd 0 (map snd cs)"

definition validate_percentages :: "(rat \<Rightarrow> rat) \<Rightarrow> components_dict \<Rightarrow> bool" where
  "validate_percentages rnd cs =
     (9999 / 10000 < total_percentage rnd cs \<and> total_percentage rnd cs < 10001 / 10000)"

definition new_Composition :: "(rat \<Rightarrow> rat) \<Rightarrow> components_dict \<Rightarrow> error + composition" where
  "new_Composition rnd cs =
     (if validate_percentages rnd cs then Inr (Composition cs)
      else Inl (ValueError ''Total percentage must be 100''))"

section \<open>winemaking/events/wine\_lot.py and eventsourcing/domain\_events.py\<close>

text \<open>
  The eight event classes.  Arguments, in order: \<^verbatim>\<open>aggregate_id\<close> first; then
  \<^verbatim>\<open>action_id\<close> for the \<^verbatim>\<open>ActionSequenced\<close> classes; then \<^verbatim>\<open>occurred_at\<close> for the
  \<^verbatim>\<open>Timestamped\<close> ones; then the class's own fields.  \<^verbatim>\<open>WineLotCreated\<close> carries
  \<^verbatim>\<open>code\<close> and \<^verbatim>\<open>components\<close>, \<^verbatim>\<open>WineLotUpdated\<close> the code before and after,
  \<^verbatim>\<open>VolumeBlended\<close> the dict \<^verbatim>\<open>volumes\<close> and \<^verbatim>\<open>volume_received\<close>, \<^verbatim>\<open>VolumeMoved\<close>
  \<^verbatim>\<open>volume\<close> and \<^verbatim>\<open>to_wine_lot_id\<close>.
\<close>

datatype wine_lot_event =
    WineLotCreated string datetime string "component_amount list"
  | WineLotUpdated string string string
  | WineLotDeleted string datetime
  | VolumeBlended string string datetime "(string \<times> decimal) list" decimal
  | VolumeReceived string string datetime decimal
  | VolumeRemeasured string string datetime decimal
  | VolumeBottled string string datetime decimal
  | VolumeMoved string string datetime decimal string

datatype wine_lot_event_type =
    CREATED | UPDATED | DELETED | VOLUME_BLENDED | VOLUME_RECEIVED
  | VOLUME_REMEASURED | VOLUME_BOTTLED | VOLUME_MOVED

fun event_type :: "wine_lot_event \<Rightarrow> wine_lot_event_type" where
  "event_type (WineLotCreated a t c cs) = CREATED"
| "event_type (WineLotUpdated a b c) = UPDATED"
| "event_type (WineLotDeleted a t) = DELETED"
| "event_type (VolumeBlended a s t vs r) = VOLUME_BLENDED"
| "event_type (VolumeReceived a s t v) = VOLUME_RECEIVED"
| "event_type (VolumeRemeasured a s t v) = VOLUME_REMEASURED"
| "event_type (VolumeBottled a s t v) = VOLUME_BOTTLED"
| "event_type (VolumeMoved a s t v l) = VOLUME_MOVED"

fun event_aggregate_id :: "wine_lot_event \<Rightarrow> string" where
  "event_aggregate_id (WineLotCreated a t c cs) = a"
| "event_aggregate_id (WineLotUpdated a b c) = a"
| "event_aggregate_id (WineLotDeleted a t) = a"
| "event_aggregate_id (VolumeBlended a s t vs r) = a"
| "event_aggregate_id (VolumeReceived a s t v) = a"
| "event_aggregate_id (VolumeRemeasured a s t v) = a"
| "event_aggregate_id (VolumeBottled a s t v) = a"
| "event_aggregate_id (VolumeMoved a s t v l) = a"

text \<open>\<^verbatim>\<open>getattr(event, "occurred_at", timezone.now())\<close>, with the clock's reading \<open>now\<close>.\<close>

fun event_occurred_at :: "datetime \<Rightarrow> wine_lot_event \<Rightarrow> datetime" where
  "event_occurred_at now (WineLotCreated a t c cs) = t"
| "event_occurred_at now (WineLotUpdated a b c) = now"
| "event_occurred_at now (WineLotDeleted a t) = t"
| "event_occurred_at now (VolumeBlended a s t vs r) = t"
| "event_occurred_at now (VolumeReceived a s t v) = t"
| "event_occurred_at now (VolumeRemeasured a s t v) = t"
| "event_occurred_at now (VolumeBottled a s t v) = t"
| "event_occurred_at now (VolumeMoved a s t v l) = t"

text \<open>
  \<^verbatim>\<open>getattr(event, "sequence_number", None)\<close>: the property \<^verbatim>\<open>sequence_number\<close> of
  \<^verbatim>\<open>ActionSequenced\<close> returns \<^verbatim>\<open>action_id\<close>.
\<close>

fun event_sequence_number :: "wine_lot_event \<Rightarrow> string option" where
  "event_sequence_number (WineLotCreated a t c cs) = None"
| "event_sequence_number (WineLotUpdated a b c) = None"
| "event_sequence_number (WineLotDeleted a t) = None"
| "event_sequence_number (VolumeBlended a s t vs r) = Some s"
| "event_sequence_number (VolumeReceived a s t v) = Some s"
| "event_sequence_number (VolumeRemeasured a s t v) = Some s"
| "event_sequence_number (VolumeBottled a s t v) = Some s"
| "event_sequence_number (VolumeMoved a s t v l) = Some s"

text \<open>
  The property \<^verbatim>\<open>WineLotCreated.composition\<close>: a dict comprehension over the components
  (a repeated key keeps its first position and its last value), passed to the
  \<^verbatim>\<open>Composition\<close> constructor.
\<close>

fun dict_of_components :: "component_amount list \<Rightarrow> components_dict \<Rightarrow> components_dict" where
  "dict_of_components [] acc = acc"
| "dict_of_components (ComponentAmount c p # cs) acc = dict_of_components cs (AList.update c p acc)"

definition created_composition :: "(rat \<Rightarrow> rat) \<Rightarrow> component_amount list \<Rightarrow> error + composition" where
  "created_composition rnd cs = new_Composition rnd (dict_of_components cs [])"

section \<open>The event store: eventsourcing/models.py\<close>

text \<open>
  A row of \<^verbatim>\<open>AggregateEventModel\<close>.  \<^verbatim>\<open>event_data\<close> holds the event that
  \<^verbatim>\<open>get_event_data\<close> parses from the stored JSON, and the column \<^verbatim>\<open>event_type\<close> is
  the type of that event (\<^verbatim>\<open>store\<close> writes both from the same event).
\<close>

record event_row =
  row_id :: nat
  aggregate_id :: string
  event_data :: wine_lot_event
  occurred_at :: datetime
  sequence_number :: "string option"

text \<open>
  \<^verbatim>\<open>AggregateEventOrderingMixin.ordering\<close>: \<^verbatim>\<open>occurred_at\<close>, then \<^verbatim>\<open>sequence_number\<close>
  ascending with NULLs first, then \<^verbatim>\<open>id\<close>.  Strings are compared lexicographically by
  character code, \<open>None\<close> is below every \<open>Some\<close>, and tuples lexicographically.  Every
  queryset over the event store that sets no order of its own is iterated in this order.
\<close>

definition canonical_key :: "event_row \<Rightarrow> datetime \<times> string option \<times> nat" where
  "canonical_key r = (occurred_at r, sequence_number r, row_id r)"

definition default_ordering :: "event_row list \<Rightarrow> event_row list" where
  "default_ordering rows = sort_key canonical_key rows"

text \<open>
  SQL comparison with a nullable column: \<^verbatim>\<open>sequence_number <= s\<close> and
  \<^verbatim>\<open>sequence_number = s\<close> are not true of a row whose \<^verbatim>\<open>sequence_number\<close> is NULL.
\<close>

fun sequence_number_lte :: "string option \<Rightarrow> string \<Rightarrow> bool" where
  "sequence_number_lte None s = False"
| "sequence_number_lte (Some x) s = (x \<le> s)"

fun sequence_number_lt :: "string option \<Rightarrow> string \<Rightarrow> bool" where
  "sequence_number_lt None s = False"
| "sequence_number_lt (Some x) s = (x < s)"

fun sequence_number_gt :: "string option \<Rightarrow> string \<Rightarrow> bool" where
  "sequence_number_gt None s = False"
| "sequence_number_gt (Some x) s = (s < x)"

text \<open>
  \<^verbatim>\<open>EventStoreManagerMixin.store\<close>: one row per event, in input order; the database
  numbers the rows from \<open>next_id\<close>.
\<close>

fun store :: "datetime \<Rightarrow> nat \<Rightarrow> wine_lot_event list \<Rightarrow> event_row list" where
  "store now next_id [] = []"
| "store now next_id (e # es) =
     \<lparr>row_id = next_id, aggregate_id = event_aggregate_id e, event_data = e,
      occurred_at = event_occurred_at now e, sequence_number = event_sequence_number e\<rparr>
     # store now (Suc next_id) es"

section \<open>The aggregate: AggregateModel and WineLot\<close>

text \<open>
  An instance of \<^verbatim>\<open>WineLot\<close>: the columns \<^verbatim>\<open>id\<close> (the primary key), \<^verbatim>\<open>version\<close>,
  \<^verbatim>\<open>code\<close>, \<^verbatim>\<open>volume\<close>, \<^verbatim>\<open>deleted_at\<close>, and the attributes the instance carries in
  memory: \<^verbatim>\<open>_state.adding\<close>, \<^verbatim>\<open>__is_before_creation__\<close>, \<^verbatim>\<open>_persistable\<close> (absent
  counts as true), \<^verbatim>\<open>_recorded_events\<close> and \<^verbatim>\<open>_deleted_event_models\<close>.
\<close>

record wine_lot =
  pk :: string
  version :: "nat option"
  code :: string
  volume :: decimal
  deleted_at :: "datetime option"
  adding :: bool
  is_before_creation :: bool
  persistable :: bool
  recorded_events :: "wine_lot_event list"
  deleted_event_models :: "event_row list"

text \<open>\<^verbatim>\<open>WineLot()\<close>: every field at its default.\<close>

definition new_WineLot :: wine_lot where
  "new_WineLot =
     \<lparr>pk = '''', version = None, code = '''', volume = 0, deleted_at = None, adding = True,
      is_before_creation = False, persistable = True, recorded_events = [],
      deleted_event_models = []\<rparr>"

definition identity :: "wine_lot \<Rightarrow> wine_lot" where
  "identity self = new_WineLot\<lparr>pk := pk self, version := version self, adding := False\<rparr>"

definition mark_for_backdating :: "wine_lot \<Rightarrow> wine_lot" where
  "mark_for_backdating self = self\<lparr>is_before_creation := True\<rparr>"

definition is_persistable :: "wine_lot \<Rightarrow> bool" where
  "is_persistable self = persistable self"

text \<open>
  \<^verbatim>\<open>_validate_event_context\<close>: the two validators \<^verbatim>\<open>WineLot\<close> defines,
  \<^verbatim>\<open>validate_volume_moved_context\<close> and \<^verbatim>\<open>validate_volume_bottled_context\<close>; an event
  class with no validator passes.
\<close>

fun validate_event_context :: "(rat \<Rightarrow> rat) \<Rightarrow> wine_lot \<Rightarrow> wine_lot_event \<Rightarrow> error option" where
  "validate_event_context rnd self (VolumeMoved a s t v l) =
     (if dec_sub rnd (volume self) v < 0
      then Some (ValueError ''Moved volume cannot exceed current volume.'') else None)"
| "validate_event_context rnd self (VolumeBottled a s t v) =
     (if dec_sub rnd (volume self) v < 0
      then Some (ValueError ''Bottled volume cannot exceed current volume.'') else None)"
| "validate_event_context rnd self e = None"

text \<open>
  \<^verbatim>\<open>_apply_event\<close>: the handler named after the event class.  \<open>uuid\<close> is the string
  \<^verbatim>\<open>uuid.uuid4().hex\<close> returns when \<^verbatim>\<open>apply_wine_lot_deleted\<close> calls it.
\<close>

fun apply_event :: "(rat \<Rightarrow> rat) \<Rightarrow> string \<Rightarrow> wine_lot \<Rightarrow> wine_lot_event \<Rightarrow> wine_lot" where
  "apply_event rnd uuid self (WineLotCreated a t c cs) = self\<lparr>pk := a, code := c\<rparr>"
| "apply_event rnd uuid self (WineLotUpdated a b c) = self\<lparr>code := c\<rparr>"
| "apply_event rnd uuid self (WineLotDeleted a t) =
     self\<lparr>code := code self @ ''!'' @ uuid, deleted_at := Some t\<rparr>"
| "apply_event rnd uuid self (VolumeReceived a s t v) = self\<lparr>volume := dec_add rnd (volume self) v\<rparr>"
| "apply_event rnd uuid self (VolumeRemeasured a s t v) = self\<lparr>volume := v\<rparr>"
| "apply_event rnd uuid self (VolumeBottled a s t v) = self\<lparr>volume := dec_sub rnd (volume self) v\<rparr>"
| "apply_event rnd uuid self (VolumeBlended a s t vs r) = self\<lparr>volume := dec_add rnd (volume self) r\<rparr>"
| "apply_event rnd uuid self (VolumeMoved a s t v l) = self\<lparr>volume := dec_sub rnd (volume self) v\<rparr>"

definition load :: "(rat \<Rightarrow> rat) \<Rightarrow> string \<Rightarrow> wine_lot \<Rightarrow> wine_lot_event \<Rightarrow> error + wine_lot" where
  "load rnd uuid self e =
     (case validate_event_context rnd self e of
        Some err \<Rightarrow> Inl err
      | None \<Rightarrow> Inr (apply_event rnd uuid self e))"

text \<open>
  Loading a sequence of events, each with the string \<^verbatim>\<open>uuid4\<close> would return while it is
  loaded: the loop \<^verbatim>\<open>for event in events: aggregate.load(event.get_event_data())\<close> on
  one aggregate.  The first exception ends the loop.
\<close>

fun load_all :: "(rat \<Rightarrow> rat) \<Rightarrow> wine_lot \<Rightarrow> (string \<times> wine_lot_event) list \<Rightarrow> error + wine_lot" where
  "load_all rnd self [] = Inr self"
| "load_all rnd self ((uuid, e) # es) =
     (case load rnd uuid self e of
        Inl err \<Rightarrow> Inl err
      | Inr self' \<Rightarrow> load_all rnd self' es)"

section \<open>The unit of work: eventsourcing/aggregate\_repository.py\<close>

text \<open>
  A \<^verbatim>\<open>defaultdict(list)\<close>: reading a missing key yields the empty list, and
  \<^verbatim>\<open>d[k] += xs\<close> stores the extended list under \<open>k\<close> (a new key goes last).
\<close>

definition dd_get :: "('k \<times> 'v list) list \<Rightarrow> 'k \<Rightarrow> 'v list" where
  "dd_get d k = (case map_of d k of None \<Rightarrow> [] | Some v \<Rightarrow> v)"

definition dd_extend :: "('k \<times> 'v list) list \<Rightarrow> 'k \<Rightarrow> 'v list \<Rightarrow> ('k \<times> 'v list) list" where
  "dd_extend d k xs = AList.update k (dd_get d k @ xs) d"

datatype event_model = WineLotEventStore

definition get_event_model :: "wine_lot \<Rightarrow> event_model" where
  "get_event_model self = WineLotEventStore"

text \<open>
  The state of the \<^verbatim>\<open>AggregateRepository\<close> singleton.  A Django model instance hashes
  and compares by its primary key, so the dict \<^verbatim>\<open>_new_aggregate_events\<close> is keyed by
  \<open>pk\<close>.
\<close>

record aggregate_repository =
  repo_events :: "wine_lot_event list"
  repo_new_aggregate_events :: "(string \<times> wine_lot_event list) list"
  repo_event_stores :: "(event_model \<times> wine_lot_event list) list"
  repo_deleted_event_models :: "(event_model \<times> event_row list) list"

definition clear :: aggregate_repository where
  "clear = \<lparr>repo_events = [], repo_new_aggregate_events = [], repo_event_stores = [],
            repo_deleted_event_models = []\<rparr>"

definition add :: "aggregate_repository \<Rightarrow> wine_lot \<Rightarrow> aggregate_repository" where
  "add repo aggregate =
     (let new_events = dd_get (repo_new_aggregate_events repo) (pk aggregate);
          added_events = drop (length new_events) (recorded_events aggregate)
      in repo\<lparr>repo_new_aggregate_events :=
                 dd_extend (repo_new_aggregate_events repo) (pk aggregate) added_events,
               repo_event_stores :=
                 dd_extend (repo_event_stores repo) (get_event_model aggregate) added_events,
               repo_deleted_event_models :=
                 dd_extend (repo_deleted_event_models repo) (get_event_model aggregate)
                   (deleted_event_models aggregate),
               repo_events := repo_events repo @ added_events\<rparr>)"

definition mark_aggregate_event_edited ::
  "aggregate_repository \<Rightarrow> wine_lot \<Rightarrow> event_row \<Rightarrow> aggregate_repository" where
  "mark_aggregate_event_edited repo aggregate event =
     (let registered =
            (if map_of (repo_new_aggregate_events repo) (pk aggregate) = None
             then AList.update (pk aggregate) [] (repo_new_aggregate_events repo)
             else repo_new_aggregate_events repo)
      in repo\<lparr>repo_new_aggregate_events := registered,
               repo_deleted_event_models :=
                 dd_extend (repo_deleted_event_models repo) WineLotEventStore [event]\<rparr>)"

text \<open>
  \<^verbatim>\<open>AggregateModel.apply\<close>: load the event, append it to the recorded events and, when
  the aggregate is persistable, register the aggregate with the repository.
\<close>

definition apply_to ::
  "(rat \<Rightarrow> rat) \<Rightarrow> string \<Rightarrow> aggregate_repository \<Rightarrow> wine_lot \<Rightarrow> wine_lot_event
     \<Rightarrow> error + (wine_lot \<times> aggregate_repository)" where
  "apply_to rnd uuid repo self e =
     (case load rnd uuid self e of
        Inl err \<Rightarrow> Inl err
      | Inr loaded \<Rightarrow>
          (let self' = loaded\<lparr>recorded_events := recorded_events loaded @ [e]\<rparr>
           in Inr (self', if is_persistable self' then add repo self' else repo)))"

section \<open>Persisting an aggregate: AggregateModel.persist\<close>

text \<open>
  A row of the table of \<^verbatim>\<open>WineLot\<close>.  \<^verbatim>\<open>id\<close> is the primary key and \<^verbatim>\<open>code\<close> is
  declared \<^verbatim>\<open>unique=True\<close>: a statement that would leave two rows with the same
  \<^verbatim>\<open>id\<close> or the same \<^verbatim>\<open>code\<close> raises \<^verbatim>\<open>IntegrityError\<close>.  The fields \<^verbatim>\<open>id\<close> and
  \<^verbatim>\<open>version\<close> are declared \<^verbatim>\<open>editable=False\<close>; \<^verbatim>\<open>code\<close>, \<^verbatim>\<open>volume\<close> and
  \<^verbatim>\<open>deleted_at\<close> are editable.
\<close>

record wine_lot_row =
  db_id :: string
  db_version :: nat
  db_code :: string
  db_volume :: decimal
  db_deleted_at :: "datetime option"

text \<open>
  What the columns hold of a value written to them.  The database is PostgreSQL (the
  querysets of the replay use \<^verbatim>\<open>DISTINCT ON\<close>), and Django hands it the values as they
  are.  \<^verbatim>\<open>volume\<close> is \<^verbatim>\<open>DecimalField(max_digits=10, decimal_places=2)\<close>, a column
  \<^verbatim>\<open>numeric(10, 2)\<close>: a value is rounded to two decimal places, a tie away from zero, and
  refused when the rounded value has more than eight digits before the point.  \<^verbatim>\<open>id\<close>
  is \<^verbatim>\<open>varchar(26)\<close> and \<^verbatim>\<open>code\<close> is \<^verbatim>\<open>varchar(100)\<close>: a longer string is refused.
  A refused value raises \<^verbatim>\<open>DataError\<close>, whatever rows the statement would touch.
\<close>

definition round_half_away :: "rat \<Rightarrow> int" where
  "round_half_away x = (if 0 \<le> x then \<lfloor>x + 1 / 2\<rfloor> else - \<lfloor>- x + 1 / 2\<rfloor>)"

definition numeric_10_2 :: "decimal \<Rightarrow> error + decimal" where
  "numeric_10_2 v =
     (let r = of_int (round_half_away (v * 100)) / 100
      in if 100000000 \<le> \<bar>r\<bar> then Inl DataError else Inr r)"

text \<open>For evaluating the rounding on numerals.\<close>

lemma floor_rat_numeral: "\<lfloor>(numeral a :: rat) / numeral b\<rfloor> = numeral a div numeral b"
  by (metis floor_divide_of_int_eq of_int_numeral)

lemma floor_rat_one_numeral: "\<lfloor>(1 :: rat) / numeral b\<rfloor> = 1 div numeral b"
  by (metis floor_divide_of_int_eq of_int_1 of_int_numeral)

definition varchar :: "nat \<Rightarrow> string \<Rightarrow> error + string" where
  "varchar n s = (if n < length s then Inl DataError else Inr s)"

definition insert_row :: "wine_lot \<Rightarrow> nat \<Rightarrow> error + wine_lot_row" where
  "insert_row self v =
     (case varchar 26 (pk self) of
        Inl err \<Rightarrow> Inl err
      | Inr stored_id \<Rightarrow>
          (case varchar 100 (code self) of
             Inl err \<Rightarrow> Inl err
           | Inr stored_code \<Rightarrow>
               (case numeric_10_2 (volume self) of
                  Inl err \<Rightarrow> Inl err
                | Inr stored_volume \<Rightarrow>
                    Inr \<lparr>db_id = stored_id, db_version = v, db_code = stored_code,
                         db_volume = stored_volume, db_deleted_at = deleted_at self\<rparr>)))"

text \<open>
  The keyword arguments of the \<^verbatim>\<open>update\<close>:
  \<^verbatim>\<open>{field.name: getattr(self, field.name) for field in self._meta.fields if field.editable}\<close>,
  as the columns take them, and the row they are written to.
\<close>

definition editable_fields :: "wine_lot \<Rightarrow> error + string \<times> decimal \<times> datetime option" where
  "editable_fields self =
     (case varchar 100 (code self) of
        Inl err \<Rightarrow> Inl err
      | Inr stored_code \<Rightarrow>
          (case numeric_10_2 (volume self) of
             Inl err \<Rightarrow> Inl err
           | Inr stored_volume \<Rightarrow> Inr (stored_code, stored_volume, deleted_at self)))"

definition update_editable_fields ::
  "string \<times> decimal \<times> datetime option \<Rightarrow> wine_lot_row \<Rightarrow> wine_lot_row" where
  "update_editable_fields written r =
     (case written of (stored_code, stored_volume, stored_deleted_at) \<Rightarrow>
        r\<lparr>db_code := stored_code, db_volume := stored_volume, db_deleted_at := stored_deleted_at\<rparr>)"

definition persist :: "wine_lot_row list \<Rightarrow> wine_lot \<Rightarrow> error + (wine_lot \<times> wine_lot_row list)" where
  "persist table self =
     (if \<not> persistable self then Inl CannotPersistAggregateView
      else if adding self then
        (case insert_row self 1 of
           Inl err \<Rightarrow> Inl err
         | Inr row \<Rightarrow>
             (let table' = table @ [row]
              in if distinct (map db_id table') \<and> distinct (map db_code table')
                 then Inr (self\<lparr>version := Some 1, adding := False\<rparr>, table')
                 else Inl IntegrityError))
      else
        (case version self of
           None \<Rightarrow> Inl TypeError
         | Some current_version \<Rightarrow>
             (let self' = self\<lparr>version := Some (current_version + 1)\<rparr>
              in case editable_fields self' of
                   Inl err \<Rightarrow> Inl err
                 | Inr written \<Rightarrow>
                     (let matches = (\<lambda>r. db_id r = pk self' \<and> db_version r = current_version);
                          updated_rows = length (filter matches table);
                          table' = map (\<lambda>r. if matches r then update_editable_fields written r
                                             else r) table
                      in if 0 < updated_rows \<and> \<not> distinct (map db_code table')
                         then Inl IntegrityError
                         else if updated_rows = 0 then Inl OutOfDateVersionException
                         else Inr (self', table')))))"

section \<open>Temporal replay: eventsourcing/aggregates.py\<close>

text \<open>
  The first loop of the three \<^verbatim>\<open>load_\<close> functions: an aggregate that is not persisted
  is kept and marked for backdating, a persisted one is replaced by its identity.  The
  result is the dict \<^verbatim>\<open>aggregates_by_id\<close>.
\<close>

fun aggregates_by_id_of :: "wine_lot list \<Rightarrow> (string \<times> wine_lot) list \<Rightarrow> (string \<times> wine_lot) list" where
  "aggregates_by_id_of [] d = d"
| "aggregates_by_id_of (agg # aggs) d =
     aggregates_by_id_of aggs
       (AList.update (pk agg) (if adding agg then mark_for_backdating agg else identity agg) d)"

text \<open>
  The filters of the querysets, as Django's \<^verbatim>\<open>Q\<close> objects state them:
  \<^verbatim>\<open>Q(occurred_at__lt=t) | Q(occurred_at=t, sequence_number__lte=s)\<close> in
  \<^verbatim>\<open>load_editable_aggregates_at_time_and_point\<close>, \<^verbatim>\<open>occurred_at__lte=t\<close> in
  \<^verbatim>\<open>load_editable_aggregates_at_time\<close>, the strict ones of
  \<^verbatim>\<open>load_aggregate_states_before\<close>, and the downstream one of
  \<^verbatim>\<open>reapply_downstream_events_from\<close>.
\<close>

definition events_after_and_including_filter :: "datetime \<Rightarrow> string \<Rightarrow> event_row \<Rightarrow> bool" where
  "events_after_and_including_filter t s r =
     (occurred_at r < t \<or> (occurred_at r = t \<and> sequence_number_lte (sequence_number r) s))"

definition events_before_or_including_filter :: "datetime \<Rightarrow> event_row \<Rightarrow> bool" where
  "events_before_or_including_filter t r = (occurred_at r \<le> t)"

definition events_before_filter :: "datetime \<Rightarrow> string option \<Rightarrow> event_row \<Rightarrow> bool" where
  "events_before_filter t sn r =
     (case sn of
        None \<Rightarrow> occurred_at r < t
      | Some s \<Rightarrow> occurred_at r < t \<or> (occurred_at r = t \<and> sequence_number_lt (sequence_number r) s))"

definition downstream_events_filter :: "datetime \<Rightarrow> string \<Rightarrow> event_row \<Rightarrow> bool" where
  "downstream_events_filter t s r =
     (t < occurred_at r \<or> (occurred_at r = t \<and> sequence_number_gt (sequence_number r) s))"

definition events_after_and_including ::
  "event_row list \<Rightarrow> string list \<Rightarrow> datetime \<Rightarrow> string \<Rightarrow> event_row list" where
  "events_after_and_including table keys t s =
     default_ordering
       (filter (\<lambda>r. aggregate_id r \<in> set keys \<and> events_after_and_including_filter t s r) table)"

definition events_before_or_including ::
  "event_row list \<Rightarrow> string list \<Rightarrow> datetime \<Rightarrow> event_row list" where
  "events_before_or_including table keys t =
     default_ordering
       (filter (\<lambda>r. aggregate_id r \<in> set keys \<and> events_before_or_including_filter t r) table)"

text \<open>
  The second loop of \<^verbatim>\<open>load_editable_aggregates_at_time_and_point\<close>: an event of the
  window that carries the sequence number is registered with the repository as edited;
  any other event of the window is loaded onto its aggregate.  \<open>uuid event\<close> is the
  string \<^verbatim>\<open>uuid4\<close> returns while \<open>event\<close> is loaded.
\<close>

fun rebuild_editable ::
  "(rat \<Rightarrow> rat) \<Rightarrow> (event_row \<Rightarrow> string) \<Rightarrow> string \<Rightarrow> event_row list \<Rightarrow> (string \<times> wine_lot) list
     \<Rightarrow> aggregate_repository \<Rightarrow> string set
     \<Rightarrow> error + ((string \<times> wine_lot) list \<times> aggregate_repository \<times> string set)" where
  "rebuild_editable rnd uuid seq [] d repo rebuilt = Inr (d, repo, rebuilt)"
| "rebuild_editable rnd uuid seq (event # events) d repo rebuilt =
     (case map_of d (aggregate_id event) of
        None \<Rightarrow> Inl KeyError
      | Some aggregate \<Rightarrow>
          (if sequence_number event = Some seq
           then rebuild_editable rnd uuid seq events d
                  (mark_aggregate_event_edited repo aggregate event) rebuilt
           else (case load rnd (uuid event) aggregate (event_data event) of
                   Inl err \<Rightarrow> Inl err
                 | Inr aggregate' \<Rightarrow>
                     rebuild_editable rnd uuid seq events
                       (AList.update (aggregate_id event) aggregate' d) repo
                       (insert (aggregate_id event) rebuilt))))"

text \<open>
  \<^verbatim>\<open>.order_by("aggregate_id", "occurred_at", F("sequence_number").asc(nulls_first=True), "id")\<close>
  \<^verbatim>\<open>.distinct("aggregate_id")\<close>: the first row of every aggregate.  \<^verbatim>\<open>exclude\<close> on a
  nullable column keeps the rows whose column is NULL.
\<close>

fun distinct_on_aggregate_id :: "event_row list \<Rightarrow> event_row list" where
  "distinct_on_aggregate_id [] = []"
| "distinct_on_aggregate_id [r] = [r]"
| "distinct_on_aggregate_id (r # r' # rs) =
     (if aggregate_id r = aggregate_id r' then distinct_on_aggregate_id (r # rs)
      else r # distinct_on_aggregate_id (r' # rs))"

definition initial_events_before :: "event_row list \<Rightarrow> string set \<Rightarrow> string \<Rightarrow> event_row list" where
  "initial_events_before table not_rebuilt_ids s =
     distinct_on_aggregate_id
       (sort_key (\<lambda>r. (aggregate_id r, canonical_key r))
          (filter (\<lambda>r. aggregate_id r \<in> not_rebuilt_ids \<and> sequence_number r \<noteq> Some s) table))"

fun load_initial_events ::
  "(rat \<Rightarrow> rat) \<Rightarrow> (event_row \<Rightarrow> string) \<Rightarrow> event_row list \<Rightarrow> (string \<times> wine_lot) list
     \<Rightarrow> error + (string \<times> wine_lot) list" where
  "load_initial_events rnd uuid [] d = Inr d"
| "load_initial_events rnd uuid (event # events) d =
     (case map_of d (aggregate_id event) of
        None \<Rightarrow> Inl KeyError
      | Some aggregate \<Rightarrow>
          (case load rnd (uuid event) aggregate (event_data event) of
             Inl err \<Rightarrow> Inl err
           | Inr aggregate' \<Rightarrow>
               load_initial_events rnd uuid events
                 (AList.update (aggregate_id event) (mark_for_backdating aggregate') d)))"

definition load_editable_aggregates_at_time_and_point ::
  "(rat \<Rightarrow> rat) \<Rightarrow> (event_row \<Rightarrow> string) \<Rightarrow> event_row list \<Rightarrow> aggregate_repository
     \<Rightarrow> wine_lot list \<Rightarrow> datetime \<Rightarrow> string
     \<Rightarrow> error + ((string \<times> wine_lot) list \<times> aggregate_repository)" where
  "load_editable_aggregates_at_time_and_point rnd uuid table repo aggregates t s =
     (let aggregates_by_id = aggregates_by_id_of aggregates []
      in if aggregates_by_id = [] then Inr ([], repo)
         else
           (case rebuild_editable rnd uuid s
                   (events_after_and_including table (map fst aggregates_by_id) t s)
                   aggregates_by_id repo {} of
              Inl err \<Rightarrow> Inl err
            | Inr (d, repo', rebuilt_aggregate_ids) \<Rightarrow>
                (case load_initial_events rnd uuid
                        (initial_events_before table
                           (set (map fst d) - rebuilt_aggregate_ids) s) d of
                   Inl err \<Rightarrow> Inl err
                 | Inr d' \<Rightarrow> Inr (d', repo'))))"

text \<open>
  \<^verbatim>\<open>rebuild_aggregates\<close>.  Its first statement calls \<^verbatim>\<open>get_event_model\<close> on the model
  class.  \<^verbatim>\<open>AggregateModel\<close> declares \<^verbatim>\<open>get_event_model\<close> a class method, but
  \<^verbatim>\<open>WineLot\<close> overrides it with a plain method of one parameter: called on an instance,
  as everywhere else, it returns the event store (\<open>get_event_model\<close> above); called on
  the class \<^verbatim>\<open>WineLot\<close> it lacks its argument and raises \<^verbatim>\<open>TypeError\<close>
  (\<open>class_get_event_model\<close>).

  The rest of the function: \<^verbatim>\<open>chunk\<close> (lib/iter.py) cuts the instances into lists of
  the chunk size; the cursor over \<^verbatim>\<open>model_class.objects.all().only("pk", "version")\<close> yields
  the instances in the order of their primary keys.  For every chunk the identities are
  built, the events of the chunk are loaded in the default ordering, and the instances
  are persisted.
\<close>

definition class_get_event_model :: "error + event_model" where
  "class_get_event_model = Inl TypeError"

fun chunk_from :: "nat \<Rightarrow> 'a list \<Rightarrow> 'a list \<Rightarrow> 'a list list" where
  "chunk_from n lst [] = (if lst \<noteq> [] then [lst] else [])"
| "chunk_from n lst (item # rest) =
     (if length (lst @ [item]) = n then (lst @ [item]) # chunk_from n [] rest
      else chunk_from n (lst @ [item]) rest)"

definition chunk :: "'a list \<Rightarrow> nat \<Rightarrow> 'a list list" where
  "chunk generator n = chunk_from n [] generator"

definition instance_of_row :: "wine_lot_row \<Rightarrow> wine_lot" where
  "instance_of_row r =
     new_WineLot\<lparr>pk := db_id r, version := Some (db_version r), code := db_code r,
                 volume := db_volume r, deleted_at := db_deleted_at r, adding := False\<rparr>"

fun rebuilt_instances_of :: "wine_lot list \<Rightarrow> (string \<times> wine_lot) list \<Rightarrow> (string \<times> wine_lot) list" where
  "rebuilt_instances_of [] d = d"
| "rebuilt_instances_of (instance # instances) d =
     rebuilt_instances_of instances (AList.update (pk instance) (identity instance) d)"

fun load_events ::
  "(rat \<Rightarrow> rat) \<Rightarrow> (event_row \<Rightarrow> string) \<Rightarrow> event_row list \<Rightarrow> (string \<times> wine_lot) list
     \<Rightarrow> error + (string \<times> wine_lot) list" where
  "load_events rnd uuid [] d = Inr d"
| "load_events rnd uuid (event # events) d =
     (case map_of d (aggregate_id event) of
        None \<Rightarrow> Inl KeyError
      | Some aggregate \<Rightarrow>
          (case load rnd (uuid event) aggregate (event_data event) of
             Inl err \<Rightarrow> Inl err
           | Inr aggregate' \<Rightarrow>
               load_events rnd uuid events (AList.update (aggregate_id event) aggregate' d)))"

fun persist_all :: "wine_lot_row list \<Rightarrow> wine_lot list \<Rightarrow> error + wine_lot_row list" where
  "persist_all table [] = Inr table"
| "persist_all table (instance # instances) =
     (case persist table instance of
        Inl err \<Rightarrow> Inl err
      | Inr (instance', table') \<Rightarrow> persist_all table' instances)"

text \<open>
  One chunk: the instances are persisted inside \<^verbatim>\<open>transaction.atomic()\<close>, so an
  exception leaves the table as it was.
\<close>

definition rebuild_chunk ::
  "(rat \<Rightarrow> rat) \<Rightarrow> (event_row \<Rightarrow> string) \<Rightarrow> event_row list \<Rightarrow> wine_lot_row list \<Rightarrow> wine_lot list
     \<Rightarrow> error + wine_lot_row list" where
  "rebuild_chunk rnd uuid event_table table chunk_instances =
     (let rebuilt_instances = rebuilt_instances_of chunk_instances [];
          ids = map pk chunk_instances;
          events = default_ordering (filter (\<lambda>r. aggregate_id r \<in> set ids) event_table)
      in case load_events rnd uuid events rebuilt_instances of
           Inl err \<Rightarrow> Inl err
         | Inr d \<Rightarrow> persist_all table (map snd d))"

fun rebuild_chunks ::
  "(rat \<Rightarrow> rat) \<Rightarrow> (event_row \<Rightarrow> string) \<Rightarrow> event_row list \<Rightarrow> wine_lot_row list
     \<Rightarrow> wine_lot list list \<Rightarrow> error + wine_lot_row list" where
  "rebuild_chunks rnd uuid event_table table [] = Inr table"
| "rebuild_chunks rnd uuid event_table table (c # cs) =
     (case rebuild_chunk rnd uuid event_table table c of
        Inl err \<Rightarrow> Inl err
      | Inr table' \<Rightarrow> rebuild_chunks rnd uuid event_table table' cs)"

definition rebuild_aggregates ::
  "(rat \<Rightarrow> rat) \<Rightarrow> (event_row \<Rightarrow> string) \<Rightarrow> event_row list \<Rightarrow> wine_lot_row list \<Rightarrow> nat
     \<Rightarrow> string option \<Rightarrow> error + wine_lot_row list" where
  "rebuild_aggregates rnd uuid event_table table chunk_size model_id =
     (case class_get_event_model of
        Inl err \<Rightarrow> Inl err
      | Inr WineLotEventStore \<Rightarrow>
          (let all_instances =
                 (case model_id of
                    None \<Rightarrow> table
                  | Some i \<Rightarrow> if i = [] then table else filter (\<lambda>r. db_id r = i) table)
           in rebuild_chunks rnd uuid event_table table
                (chunk (map instance_of_row (sort_key db_id all_instances)) chunk_size)))"

text \<open>
  For stating what \<^verbatim>\<open>load_editable_aggregates_at_time_and_point\<close> returns: the rows of
  a list paired with what \<^verbatim>\<open>uuid4\<close> returns while each is loaded; the value the first
  loop stores for an input aggregate; the events of the window that belong to one
  aggregate and do not carry the sequence number; the events of the window that carry
  it; and the fold as the specification words it, of all the events of the window that
  belong to the aggregate, onto its identity.
\<close>

definition with_uuid :: "(event_row \<Rightarrow> string) \<Rightarrow> event_row list \<Rightarrow> (string \<times> wine_lot_event) list" where
  "with_uuid uuid rows = map (\<lambda>r. (uuid r, event_data r)) rows"

definition seed :: "wine_lot \<Rightarrow> wine_lot" where
  "seed agg = (if adding agg then mark_for_backdating agg else identity agg)"

definition folded_events ::
  "event_row list \<Rightarrow> string list \<Rightarrow> datetime \<Rightarrow> string \<Rightarrow> string \<Rightarrow> event_row list" where
  "folded_events table keys t s k =
     filter (\<lambda>r. aggregate_id r = k \<and> sequence_number r \<noteq> Some s)
       (events_after_and_including table keys t s)"

definition edited_events ::
  "event_row list \<Rightarrow> string list \<Rightarrow> datetime \<Rightarrow> string \<Rightarrow> event_row list" where
  "edited_events table keys t s =
     filter (\<lambda>r. sequence_number r = Some s) (events_after_and_including table keys t s)"

definition claimed_replay ::
  "(rat \<Rightarrow> rat) \<Rightarrow> (event_row \<Rightarrow> string) \<Rightarrow> event_row list \<Rightarrow> string list \<Rightarrow> datetime \<Rightarrow> string
     \<Rightarrow> wine_lot \<Rightarrow> error + wine_lot" where
  "claimed_replay rnd uuid table keys t s agg =
     load_all rnd (identity agg)
       (with_uuid uuid
          (filter (\<lambda>r. aggregate_id r = pk agg) (events_after_and_including table keys t s)))"

text \<open>
  \<^verbatim>\<open>load_editable_aggregates_at_time\<close>: the same structure, with the window
  \<^verbatim>\<open>occurred_at__lte=occurred_at\<close>, every event of the window loaded, and the aggregates
  that got no event seeded from their first event of all.
\<close>

fun rebuild_at_time ::
  "(rat \<Rightarrow> rat) \<Rightarrow> (event_row \<Rightarrow> string) \<Rightarrow> event_row list \<Rightarrow> (string \<times> wine_lot) list
     \<Rightarrow> string set \<Rightarrow> error + ((string \<times> wine_lot) list \<times> string set)" where
  "rebuild_at_time rnd uuid [] d rebuilt = Inr (d, rebuilt)"
| "rebuild_at_time rnd uuid (event # events) d rebuilt =
     (case map_of d (aggregate_id event) of
        None \<Rightarrow> Inl KeyError
      | Some aggregate \<Rightarrow>
          (case load rnd (uuid event) aggregate (event_data event) of
             Inl err \<Rightarrow> Inl err
           | Inr aggregate' \<Rightarrow>
               rebuild_at_time rnd uuid events
                 (AList.update (aggregate_id event) aggregate' d)
                 (insert (aggregate_id event) rebuilt)))"

definition initial_events :: "event_row list \<Rightarrow> string set \<Rightarrow> event_row list" where
  "initial_events table not_rebuilt_ids =
     distinct_on_aggregate_id
       (sort_key (\<lambda>r. (aggregate_id r, canonical_key r))
          (filter (\<lambda>r. aggregate_id r \<in> not_rebuilt_ids) table))"

definition load_editable_aggregates_at_time ::
  "(rat \<Rightarrow> rat) \<Rightarrow> (event_row \<Rightarrow> string) \<Rightarrow> event_row list \<Rightarrow> wine_lot list \<Rightarrow> datetime
     \<Rightarrow> error + (string \<times> wine_lot) list" where
  "load_editable_aggregates_at_time rnd uuid table aggregates t =
     (let aggregates_by_id = aggregates_by_id_of aggregates []
      in if aggregates_by_id = [] then Inr []
         else
           (case rebuild_at_time rnd uuid
                   (events_before_or_including table (map fst aggregates_by_id) t)
                   aggregates_by_id {} of
              Inl err \<Rightarrow> Inl err
            | Inr (d, rebuilt_aggregate_ids) \<Rightarrow>
                load_initial_events rnd uuid
                  (initial_events table (set (map fst d) - rebuilt_aggregate_ids)) d))"

text \<open>
  \<^verbatim>\<open>reapply_downstream_events_from\<close>: the events of the aggregate after the timestamp, or
  at the timestamp with a greater sequence number, loaded onto the aggregate in the
  default ordering.
\<close>

definition reapply_downstream_events_from ::
  "(rat \<Rightarrow> rat) \<Rightarrow> (event_row \<Rightarrow> string) \<Rightarrow> event_row list \<Rightarrow> wine_lot \<Rightarrow> datetime \<Rightarrow> string
     \<Rightarrow> error + wine_lot" where
  "reapply_downstream_events_from rnd uuid table aggregate t s =
     load_all rnd aggregate
       (with_uuid uuid
          (default_ordering
             (filter (\<lambda>r. aggregate_id r = pk aggregate \<and> downstream_events_filter t s r) table)))"

section \<open>Committing a unit of work\<close>

text \<open>
  The database: the table of wine lots, the event store, and the next value of the
  event store's \<^verbatim>\<open>id\<close> sequence.
\<close>

record database =
  wine_lots :: "wine_lot_row list"
  wine_lot_events :: "event_row list"
  next_event_id :: nat

text \<open>
  What an observer outside the process sees of a unit of work, in order: a subscriber's
  \<^verbatim>\<open>handle\<close> being invoked with a notification, the transaction committing, the
  transaction rolling back.
\<close>

datatype 's observation = Invoked 's wine_lot_event | Committed | RolledBack

text \<open>
  \<^verbatim>\<open>LocalNotificationBus.dispatch\<close> and \<^verbatim>\<open>dispatch_all\<close>.  The subscriber classes of
  an event come from the settings: the parameter \<open>subscribers\<close>.  \<open>handle s e\<close> tells
  whether the subscriber's \<^verbatim>\<open>handle\<close> returns (\<open>True\<close>) or raises.
\<close>

fun dispatch ::
  "('s \<Rightarrow> wine_lot_event \<Rightarrow> bool) \<Rightarrow> 's list \<Rightarrow> wine_lot_event \<Rightarrow> 's observation list
     \<Rightarrow> error option \<times> 's observation list" where
  "dispatch handle [] e trace = (None, trace)"
| "dispatch handle (s # ss) e trace =
     (if handle s e then dispatch handle ss e (trace @ [Invoked s e])
      else (Some SubscriberError, trace @ [Invoked s e]))"

fun dispatch_all ::
  "('s \<Rightarrow> wine_lot_event \<Rightarrow> bool) \<Rightarrow> (wine_lot_event \<Rightarrow> 's list) \<Rightarrow> wine_lot_event list
     \<Rightarrow> 's observation list \<Rightarrow> error option \<times> 's observation list" where
  "dispatch_all handle subscribers [] trace = (None, trace)"
| "dispatch_all handle subscribers (e # es) trace =
     (case dispatch handle (subscribers e) e trace of
        (Some err, trace') \<Rightarrow> (Some err, trace')
      | (None, trace') \<Rightarrow> dispatch_all handle subscribers es trace')"

text \<open>
  The three loops of \<^verbatim>\<open>AggregateRepository.persist\<close> that write to the database.  The
  keys of \<^verbatim>\<open>_new_aggregate_events\<close> are the aggregate instances themselves; \<open>objects k\<close>
  is the instance registered under the primary key \<open>k\<close>, in the state it has when
  \<^verbatim>\<open>persist\<close> runs.
\<close>

fun persist_aggregates ::
  "(string \<Rightarrow> wine_lot) \<Rightarrow> string list \<Rightarrow> wine_lot_row list \<Rightarrow> error + wine_lot_row list" where
  "persist_aggregates objects [] table = Inr table"
| "persist_aggregates objects (k # ks) table =
     (case persist table (objects k) of
        Inl err \<Rightarrow> Inl err
      | Inr (aggregate', table') \<Rightarrow> persist_aggregates objects ks table')"

fun store_events :: "datetime \<Rightarrow> (event_model \<times> wine_lot_event list) list \<Rightarrow> database \<Rightarrow> database" where
  "store_events now [] db = db"
| "store_events now ((WineLotEventStore, evs) # stores) db =
     store_events now stores
       (db\<lparr>wine_lot_events := wine_lot_events db @ store now (next_event_id db) evs,
           next_event_id := next_event_id db + length evs\<rparr>)"

fun delete_events :: "(event_model \<times> event_row list) list \<Rightarrow> database \<Rightarrow> database" where
  "delete_events [] db = db"
| "delete_events ((WineLotEventStore, evs) # deletions) db =
     delete_events deletions
       (if map row_id evs \<noteq> []
        then db\<lparr>wine_lot_events := filter (\<lambda>r. row_id r \<notin> set (map row_id evs)) (wine_lot_events db)\<rparr>
        else db)"

text \<open>
  \<^verbatim>\<open>AggregateRepository.persist\<close>: persist the aggregates, store the events, delete the
  edited events, dispatch the notifications, clear.  The result is the database as the
  open transaction sees it, and what was observed.
\<close>

definition repository_persist ::
  "('s \<Rightarrow> wine_lot_event \<Rightarrow> bool) \<Rightarrow> (wine_lot_event \<Rightarrow> 's list) \<Rightarrow> datetime
     \<Rightarrow> (string \<Rightarrow> wine_lot) \<Rightarrow> aggregate_repository \<Rightarrow> database
     \<Rightarrow> (error + database) \<times> 's observation list" where
  "repository_persist handle subscribers now objects repo db =
     (case persist_aggregates objects (map fst (repo_new_aggregate_events repo)) (wine_lots db) of
        Inl err \<Rightarrow> (Inl err, [])
      | Inr table' \<Rightarrow>
          (let db' = delete_events (repo_deleted_event_models repo)
                       (store_events now (repo_event_stores repo) (db\<lparr>wine_lots := table'\<rparr>))
           in case dispatch_all handle subscribers (repo_events repo) [] of
                (Some err, trace) \<Rightarrow> (Inl err, trace)
              | (None, trace) \<Rightarrow> (Inr db', trace)))"

text \<open>
  \<^verbatim>\<open>store_aggregate_changes\<close> (and the context manager \<^verbatim>\<open>aggregate_store\<close>, which has
  the same body): inside \<^verbatim>\<open>with atomic()\<close>, run the wrapped function and then
  \<^verbatim>\<open>persist\<close>; an exception from either clears the repository and leaves the block, which
  rolls the transaction back; leaving the block normally commits.  The wrapped function
  \<open>f\<close> reads the database and returns its response, the repository as its calls of
  \<^verbatim>\<open>apply\<close> left it, and the registered instances.  The results: the response or the
  exception, the database after the block, the repository, and the observations.
\<close>

definition store_aggregate_changes ::
  "('s \<Rightarrow> wine_lot_event \<Rightarrow> bool) \<Rightarrow> (wine_lot_event \<Rightarrow> 's list) \<Rightarrow> datetime
     \<Rightarrow> (database \<Rightarrow> error + ('r \<times> aggregate_repository \<times> (string \<Rightarrow> wine_lot)))
     \<Rightarrow> database
     \<Rightarrow> (error + 'r) \<times> database \<times> aggregate_repository \<times> 's observation list" where
  "store_aggregate_changes handle subscribers now f db =
     (case f db of
        Inl err \<Rightarrow> (Inl err, db, clear, [RolledBack])
      | Inr (response, repo, objects) \<Rightarrow>
          (case repository_persist handle subscribers now objects repo db of
             (Inl err, trace) \<Rightarrow> (Inl err, db, clear, trace @ [RolledBack])
           | (Inr db', trace) \<Rightarrow> (Inr response, db', clear, trace @ [Committed])))"

text \<open>
  For stating what was observed: the invocations that dispatching a list of events to
  all their subscribers consists of, in order, and the test for an invocation.
\<close>

definition invocations :: "(wine_lot_event \<Rightarrow> 's list) \<Rightarrow> wine_lot_event list \<Rightarrow> 's observation list" where
  "invocations subscribers es = concat (map (\<lambda>e. map (\<lambda>s. Invoked s e) (subscribers e)) es)"

fun is_invocation :: "'s observation \<Rightarrow> bool" where
  "is_invocation (Invoked s e) = True"
| "is_invocation Committed = False"
| "is_invocation RolledBack = False"

section \<open>The composition projection: winemaking/use\_cases/calculate\_composition.py\<close>

text \<open>
  The cutoff that \<^verbatim>\<open>_build_lot_compositions\<close> and \<^verbatim>\<open>_get_all_lot_ids\<close> both apply to
  their querysets: no filter without \<^verbatim>\<open>effective_at\<close>; with \<^verbatim>\<open>effective_at\<close> and
  \<^verbatim>\<open>action_id\<close>,
  \<^verbatim>\<open>Q(occurred_at__lt=effective_at) | Q(occurred_at=effective_at, sequence_number__lte=action_id)\<close>;
  with \<^verbatim>\<open>effective_at\<close> alone, \<^verbatim>\<open>occurred_at__lte=effective_at\<close>.
\<close>

definition relevant_events_filter :: "datetime option \<Rightarrow> string option \<Rightarrow> event_row \<Rightarrow> bool" where
  "relevant_events_filter effective_at action_id r =
     (case effective_at of
        None \<Rightarrow> True
      | Some t \<Rightarrow>
          (case action_id of
             Some a \<Rightarrow> occurred_at r < t \<or> (occurred_at r = t \<and> sequence_number_lte (sequence_number r) a)
           | None \<Rightarrow> occurred_at r \<le> t))"

definition relevant_events ::
  "event_row list \<Rightarrow> string set \<Rightarrow> datetime option \<Rightarrow> string option \<Rightarrow> event_row list" where
  "relevant_events table lot_ids effective_at action_id =
     default_ordering
       (filter (\<lambda>r. aggregate_id r \<in> lot_ids \<and> relevant_events_filter effective_at action_id r) table)"

definition blend_events ::
  "event_row list \<Rightarrow> string \<Rightarrow> datetime option \<Rightarrow> string option \<Rightarrow> event_row list" where
  "blend_events table current effective_at action_id =
     default_ordering
       (filter (\<lambda>r. (aggregate_id r = current \<and> event_type (event_data r) = VOLUME_BLENDED)
                     \<and> relevant_events_filter effective_at action_id r) table)"

text \<open>The field \<^verbatim>\<open>volumes\<close> of a \<^verbatim>\<open>VolumeBlended\<close> event; no other class has it.\<close>

fun event_volumes :: "wine_lot_event \<Rightarrow> (string \<times> decimal) list" where
  "event_volumes (VolumeBlended a s t vs r) = vs"
| "event_volumes e = []"

text \<open>The field \<^verbatim>\<open>components\<close> of a \<^verbatim>\<open>WineLotCreated\<close> event; no other class has it.\<close>

fun event_components :: "wine_lot_event \<Rightarrow> component_amount list" where
  "event_components (WineLotCreated a t c cs) = cs"
| "event_components e = []"

text \<open>
  \<^verbatim>\<open>_get_all_lot_ids\<close>: the inner loop over the source lots of one blend event, the loop
  over the blend events of the lot taken from the queue, and the \<^verbatim>\<open>while queue\<close> loop.
\<close>

fun discover_sources :: "string list \<Rightarrow> string set \<times> string list \<Rightarrow> string set \<times> string list" where
  "discover_sources [] dq = dq"
| "discover_sources (source_lot_id # rest) (discovered, queue) =
     (if source_lot_id \<notin> discovered
      then discover_sources rest (insert source_lot_id discovered, queue @ [source_lot_id])
      else discover_sources rest (discovered, queue))"

fun discover_events :: "event_row list \<Rightarrow> string set \<times> string list \<Rightarrow> string set \<times> string list" where
  "discover_events [] dq = dq"
| "discover_events (event # events) dq =
     discover_events events (discover_sources (map fst (event_volumes (event_data event))) dq)"

definition all_source_lot_ids :: "event_row list \<Rightarrow> string set" where
  "all_source_lot_ids table = set (concat (map (\<lambda>r. map fst (event_volumes (event_data r))) table))"

lemma discover_sources_grows:
  "discover_sources ss (d, q) = (d', q') \<Longrightarrow>
     d \<subseteq> d' \<and> d' \<subseteq> d \<union> set ss \<and> (d' = d \<longrightarrow> q' = q) \<and> length q \<le> length q'"
proof (induction ss arbitrary: d q)
  case Nil
  then show ?case by simp
next
  case (Cons s ss)
  show ?case
  proof (cases "s \<in> d")
    case True
    with Cons.prems have "discover_sources ss (d, q) = (d', q')" by simp
    from Cons.IH [OF this] show ?thesis by auto
  next
    case False
    with Cons.prems have "discover_sources ss (insert s d, q @ [s]) = (d', q')" by simp
    from Cons.IH [OF this] False show ?thesis by auto
  qed
qed

lemma discover_events_grows:
  "discover_events es (d, q) = (d', q') \<Longrightarrow>
     d \<subseteq> d' \<and> d' \<subseteq> d \<union> all_source_lot_ids es \<and> (d' = d \<longrightarrow> q' = q) \<and> length q \<le> length q'"
proof (induction es arbitrary: d q)
  case Nil
  then show ?case by simp
next
  case (Cons e es)
  obtain d1 q1 where step: "discover_sources (map fst (event_volumes (event_data e))) (d, q) = (d1, q1)"
    by (cases "discover_sources (map fst (event_volumes (event_data e))) (d, q)") auto
  with Cons.prems have rest: "discover_events es (d1, q1) = (d', q')" by simp
  note a = discover_sources_grows [OF step]
  note b = Cons.IH [OF rest]
  have sub: "d' \<subseteq> d \<union> all_source_lot_ids (e # es)"
    using a b by (auto simp: all_source_lot_ids_def)
  have same: "d' = d \<longrightarrow> q' = q"
  proof
    assume eq: "d' = d"
    with a b have "d1 = d" by auto
    with a b eq show "q' = q" by auto
  qed
  from a b sub same show ?case by auto
qed

lemma all_source_lot_ids_filter:
  "all_source_lot_ids (default_ordering (filter P table)) \<subseteq> all_source_lot_ids table"
  by (auto simp: all_source_lot_ids_def default_ordering_def)

lemma finite_all_source_lot_ids: "finite (all_source_lot_ids table)"
  by (simp add: all_source_lot_ids_def)

function get_all_lot_ids_loop ::
  "event_row list \<Rightarrow> datetime option \<Rightarrow> string option \<Rightarrow> string set \<Rightarrow> string list \<Rightarrow> string set" where
  "get_all_lot_ids_loop table effective_at action_id discovered [] = discovered"
| "get_all_lot_ids_loop table effective_at action_id discovered (current # queue) =
     (case discover_events (blend_events table current effective_at action_id) (discovered, queue) of
        (discovered', queue') \<Rightarrow> get_all_lot_ids_loop table effective_at action_id discovered' queue')"
  by pat_completeness auto
termination
proof (relation "measures [\<lambda>(table, e, a, d, q). card (all_source_lot_ids table - d),
                           \<lambda>(table, e, a, d, q). length q]", goal_cases)
  case 1
  show ?case by simp
next
  case (2 table effective_at action_id discovered current queue discovered' queue')
  then have step: "discover_events (blend_events table current effective_at action_id)
                     (discovered, queue) = (discovered', queue')"
    by simp
  note g = discover_events_grows [OF step]
  have sub: "discovered' \<subseteq> discovered \<union> all_source_lot_ids table"
    using g all_source_lot_ids_filter [of _ table] unfolding blend_events_def by blast
  show ?case
  proof (cases "discovered' = discovered")
    case True
    with g have "queue' = queue" by simp
    with True show ?thesis by simp
  next
    case False
    with g have strict: "discovered \<subset> discovered'" by auto
    have "all_source_lot_ids table - discovered' \<subset> all_source_lot_ids table - discovered"
      using strict sub by auto
    then have "card (all_source_lot_ids table - discovered')
                 < card (all_source_lot_ids table - discovered)"
      by (intro psubset_card_mono) (simp_all add: finite_all_source_lot_ids)
    then show ?thesis by simp
  qed
qed

definition get_all_lot_ids ::
  "event_row list \<Rightarrow> string \<Rightarrow> datetime option \<Rightarrow> string option \<Rightarrow> string set" where
  "get_all_lot_ids table lot_id effective_at action_id =
     get_all_lot_ids_loop table effective_at action_id {lot_id} [lot_id]"

text \<open>
  The blend arithmetic of \<^verbatim>\<open>_build_lot_compositions\<close>.  \<open>add_components\<close> is the loop
  \<^verbatim>\<open>new_components[comp] = new_components.get(comp, Decimal("0")) + pct * weight\<close> over
  the components of one composition; \<open>add_blends\<close> is the loop over
  \<^verbatim>\<open>event_data.volumes.items()\<close>, which skips a volume that is not positive.
\<close>

definition dict_get :: "('k \<times> 'v) list \<Rightarrow> 'k \<Rightarrow> 'v \<Rightarrow> 'v" where
  "dict_get d k dflt = (case map_of d k of None \<Rightarrow> dflt | Some v \<Rightarrow> v)"

fun add_components :: "(rat \<Rightarrow> rat) \<Rightarrow> decimal \<Rightarrow> components_dict \<Rightarrow> components_dict \<Rightarrow> components_dict" where
  "add_components rnd weight [] new_components = new_components"
| "add_components rnd weight ((component, pct) # cs) new_components =
     add_components rnd weight cs
       (AList.update component
          (dec_add rnd (dict_get new_components component 0) (dec_mul rnd pct weight))
          new_components)"

fun add_blends ::
  "(rat \<Rightarrow> rat) \<Rightarrow> decimal \<Rightarrow> (string \<times> composition) list \<Rightarrow> (string \<times> decimal) list
     \<Rightarrow> components_dict \<Rightarrow> error + components_dict" where
  "add_blends rnd new_total_volume lot_compositions [] new_components = Inr new_components"
| "add_blends rnd new_total_volume lot_compositions ((blended_lot_id, blend_volume) # vs) new_components =
     (if blend_volume \<le> 0 then add_blends rnd new_total_volume lot_compositions vs new_components
      else (case dec_div rnd blend_volume new_total_volume of
              Inl err \<Rightarrow> Inl err
            | Inr blend_weight \<Rightarrow>
                (case map_of lot_compositions blended_lot_id of
                   None \<Rightarrow> Inl KeyError
                 | Some blend_composition \<Rightarrow>
                     add_blends rnd new_total_volume lot_compositions vs
                       (add_components rnd blend_weight (components blend_composition)
                          new_components))))"

definition existing_contribution ::
  "(rat \<Rightarrow> rat) \<Rightarrow> decimal \<Rightarrow> decimal \<Rightarrow> composition \<Rightarrow> error + components_dict" where
  "existing_contribution rnd lot_volume new_total_volume lot_composition =
     (if 0 < lot_volume
      then (case dec_div rnd lot_volume new_total_volume of
              Inl err \<Rightarrow> Inl err
            | Inr current_weight \<Rightarrow>
                Inr (add_components rnd current_weight (components lot_composition) []))
      else Inr [])"

definition blend_composition ::
  "(rat \<Rightarrow> rat) \<Rightarrow> decimal \<Rightarrow> composition \<Rightarrow> (string \<times> composition) list
     \<Rightarrow> (string \<times> decimal) list \<Rightarrow> error + composition" where
  "blend_composition rnd lot_volume lot_composition lot_compositions volumes =
     (let blended_total = dec_sum rnd 0 (map snd volumes);
          new_total_volume = dec_add rnd lot_volume blended_total
      in case existing_contribution rnd lot_volume new_total_volume lot_composition of
           Inl err \<Rightarrow> Inl err
         | Inr existing \<Rightarrow>
             (case add_blends rnd new_total_volume lot_compositions volumes existing of
                Inl err \<Rightarrow> Inl err
              | Inr new_components \<Rightarrow> new_Composition rnd new_components))"

text \<open>
  One pass of the loop \<^verbatim>\<open>for event in relevant_events\<close>, on the two dicts
  \<^verbatim>\<open>lot_compositions\<close> and \<^verbatim>\<open>lots\<close>.
\<close>

definition composition_step ::
  "(rat \<Rightarrow> rat) \<Rightarrow> (event_row \<Rightarrow> string)
     \<Rightarrow> (string \<times> composition) list \<times> (string \<times> wine_lot) list \<Rightarrow> event_row
     \<Rightarrow> error + ((string \<times> composition) list \<times> (string \<times> wine_lot) list)" where
  "composition_step rnd uuid st event =
     (case st of (lot_compositions, lots) \<Rightarrow>
        if event_type (event_data event) = CREATED then
          (case created_composition rnd (event_components (event_data event)) of
             Inl err \<Rightarrow> Inl err
           | Inr c \<Rightarrow>
               (case load rnd (uuid event) new_WineLot (event_data event) of
                  Inl err \<Rightarrow> Inl err
                | Inr lot \<Rightarrow>
                    Inr (AList.update (aggregate_id event) c lot_compositions,
                         AList.update (aggregate_id event) lot lots)))
        else
          (case map_of lots (aggregate_id event) of
             None \<Rightarrow> Inl KeyError
           | Some lot \<Rightarrow>
               (case (if event_type (event_data event) = VOLUME_BLENDED then
                        (case map_of lot_compositions (aggregate_id event) of
                           None \<Rightarrow> Inl KeyError
                         | Some lot_composition \<Rightarrow>
                             (case blend_composition rnd (volume lot) lot_composition
                                     lot_compositions (event_volumes (event_data event)) of
                                Inl err \<Rightarrow> Inl err
                              | Inr new_composition \<Rightarrow>
                                  Inr (AList.update (aggregate_id event) new_composition
                                         lot_compositions)))
                      else Inr lot_compositions) of
                  Inl err \<Rightarrow> Inl err
                | Inr lot_compositions' \<Rightarrow>
                    (case load rnd (uuid event) lot (event_data event) of
                       Inl err \<Rightarrow> Inl err
                     | Inr lot' \<Rightarrow>
                         Inr (lot_compositions', AList.update (aggregate_id event) lot' lots)))))"

fun composition_fold ::
  "(rat \<Rightarrow> rat) \<Rightarrow> (event_row \<Rightarrow> string)
     \<Rightarrow> (string \<times> composition) list \<times> (string \<times> wine_lot) list \<Rightarrow> event_row list
     \<Rightarrow> error + ((string \<times> composition) list \<times> (string \<times> wine_lot) list)" where
  "composition_fold rnd uuid st [] = Inr st"
| "composition_fold rnd uuid st (event # events) =
     (case composition_step rnd uuid st event of
        Inl err \<Rightarrow> Inl err
      | Inr st' \<Rightarrow> composition_fold rnd uuid st' events)"

definition build_lot_compositions ::
  "(rat \<Rightarrow> rat) \<Rightarrow> (event_row \<Rightarrow> string) \<Rightarrow> event_row list \<Rightarrow> string set \<Rightarrow> datetime option
     \<Rightarrow> string option \<Rightarrow> error + (string \<times> composition) list" where
  "build_lot_compositions rnd uuid table lot_ids effective_at action_id =
     (case composition_fold rnd uuid ([], [])
             (relevant_events table lot_ids effective_at action_id) of
        Inl err \<Rightarrow> Inl err
      | Inr (lot_compositions, lots) \<Rightarrow> Inr lot_compositions)"

definition calculate_composition ::
  "(rat \<Rightarrow> rat) \<Rightarrow> (event_row \<Rightarrow> string) \<Rightarrow> database \<Rightarrow> string \<Rightarrow> datetime option
     \<Rightarrow> string option \<Rightarrow> error + composition" where
  "calculate_composition rnd uuid db lot_id effective_at0 action_id =
     (let effective_at = map_option replace_microsecond_0 effective_at0
      in if action_id \<noteq> None \<and> effective_at = None
         then Inl (ValueError ''effective_at must be provided when action_id is specified.'')
         else if filter (\<lambda>r. db_id r = lot_id) (wine_lots db) = []
         then Inl (ValueError (''Wine lot with ID '' @ lot_id @ '' does not exist.''))
         else
           (let lot_ids = get_all_lot_ids (wine_lot_events db) lot_id effective_at action_id
            in case build_lot_compositions rnd uuid (wine_lot_events db) lot_ids
                      effective_at action_id of
                 Inl err \<Rightarrow> Inl err
               | Inr lot_compositions \<Rightarrow>
                   (case map_of lot_compositions lot_id of
                      None \<Rightarrow> Inl KeyError
                    | Some c \<Rightarrow> Inr c)))"

text \<open>
  The tolerance of the composition invariant: the sum of the fractions, as
  \<^verbatim>\<open>validate_percentages\<close> computes it, lies in the closed interval from 0.9999 to
  1.0001.
\<close>

definition within_tolerance :: "(rat \<Rightarrow> rat) \<Rightarrow> composition \<Rightarrow> bool" where
  "within_tolerance rnd c =
     (9999 / 10000 \<le> total_percentage rnd (components c)
      \<and> total_percentage rnd (components c) \<le> 10001 / 10000)"

text \<open>
  The blend as the specification words it, for comparison with \<open>blend_composition\<close>.
  \<open>scaled\<close> is a composition scaled by a weight; \<open>plus_components\<close> adds the entries of
  a dict to a dict, an absent component counting as 0; \<open>plus_sources\<close> adds, for each
  source lot of the list, that lot's current composition scaled by
  \<open>blend_volume / V_new\<close>; \<open>positive_sources\<close> are the source lots whose blend volume is
  positive.  \<open>claimed_blend\<close> is then: with \<open>V_new = V_old + \<Sum> volumes\<close>, the existing
  composition scaled by \<open>V_old / V_new\<close> plus the scaled compositions of the positive
  sources.
\<close>

definition scaled :: "(rat \<Rightarrow> rat) \<Rightarrow> decimal \<Rightarrow> components_dict \<Rightarrow> components_dict" where
  "scaled rnd w cs = map (\<lambda>(component, pct). (component, dec_mul rnd pct w)) cs"

fun plus_components :: "(rat \<Rightarrow> rat) \<Rightarrow> components_dict \<Rightarrow> components_dict \<Rightarrow> components_dict" where
  "plus_components rnd a [] = a"
| "plus_components rnd a ((component, x) # b) =
     plus_components rnd (AList.update component (dec_add rnd (dict_get a component 0) x) a) b"

fun plus_sources ::
  "(rat \<Rightarrow> rat) \<Rightarrow> decimal \<Rightarrow> (string \<times> composition) list \<Rightarrow> (string \<times> decimal) list
     \<Rightarrow> components_dict \<Rightarrow> components_dict" where
  "plus_sources rnd V_new lot_compositions [] acc = acc"
| "plus_sources rnd V_new lot_compositions ((l, b) # sources) acc =
     plus_sources rnd V_new lot_compositions sources
       (plus_components rnd acc
          (scaled rnd (rnd (b / V_new))
             (components (dict_get lot_compositions l (Composition [])))))"

definition positive_sources :: "(string \<times> decimal) list \<Rightarrow> (string \<times> decimal) list" where
  "positive_sources volumes = filter (\<lambda>(l, b). 0 < b) volumes"

definition new_total_volume_of :: "(rat \<Rightarrow> rat) \<Rightarrow> decimal \<Rightarrow> (string \<times> decimal) list \<Rightarrow> decimal" where
  "new_total_volume_of rnd V_old volumes = dec_add rnd V_old (dec_sum rnd 0 (map snd volumes))"

definition claimed_blend ::
  "(rat \<Rightarrow> rat) \<Rightarrow> decimal \<Rightarrow> composition \<Rightarrow> (string \<times> composition) list
     \<Rightarrow> (string \<times> decimal) list \<Rightarrow> components_dict" where
  "claimed_blend rnd V_old existing lot_compositions volumes =
     plus_sources rnd (new_total_volume_of rnd V_old volumes) lot_compositions
       (positive_sources volumes)
       (plus_components rnd []
          (scaled rnd (rnd (V_old / new_total_volume_of rnd V_old volumes)) (components existing)))"

text \<open>
  For stating how far rounding can move the sum of a composition.  \<open>rounds_within \<rho> rnd\<close>:
  the rounding \<open>rnd\<close> is off by at most the factor \<open>\<rho>\<close>, up or down, on every value that
  is not negative; the context of \<^verbatim>\<open>decimal\<close>, with 28 significant digits and rounding to
  nearest, is within \<open>1 + 1 / 10 ^ 27\<close>, and exact arithmetic within 1.  \<open>approx \<rho> k x y\<close>: the
  values \<open>x\<close> and \<open>y\<close> are not negative and within the factor \<open>\<rho> ^ k\<close> of each other.
  \<open>near_one \<rho> k cs\<close>: no entry of the dict is negative and its exact sum is within the
  factor \<open>\<rho> ^ k\<close> of 1; for \<open>k = 0\<close> the sum equals 1.  \<open>source_terms\<close> counts the additions
  that the loop over the blended-in lots makes, one for every component of every source
  lot with a positive volume, and \<open>blend_target\<close> is what those additions add up to
  without rounding, for the new total volume \<open>V\<close>.
\<close>

definition rounds_within :: "rat \<Rightarrow> (rat \<Rightarrow> rat) \<Rightarrow> bool" where
  "rounds_within \<rho> rnd = (1 \<le> \<rho> \<and> (\<forall>x. 0 \<le> x \<longrightarrow> rnd x \<le> \<rho> * x \<and> x \<le> \<rho> * rnd x))"

definition approx :: "rat \<Rightarrow> nat \<Rightarrow> rat \<Rightarrow> rat \<Rightarrow> bool" where
  "approx \<rho> k x y = (0 \<le> x \<and> 0 \<le> y \<and> x \<le> \<rho> ^ k * y \<and> y \<le> \<rho> ^ k * x)"

definition nonnegative :: "components_dict \<Rightarrow> bool" where
  "nonnegative cs = list_all (\<lambda>p. 0 \<le> snd p) cs"

definition near_one :: "rat \<Rightarrow> nat \<Rightarrow> components_dict \<Rightarrow> bool" where
  "near_one \<rho> k cs = (nonnegative cs \<and> approx \<rho> k (sum_list (map snd cs)) 1)"

definition source_terms :: "(string \<times> composition) list \<Rightarrow> (string \<times> decimal) list \<Rightarrow> nat" where
  "source_terms lcs volumes =
     sum_list (map (\<lambda>(l, b). if 0 < b
                              then length (components (dict_get lcs l (Composition []))) else 0)
                 volumes)"

definition blend_target ::
  "(string \<times> composition) list \<Rightarrow> decimal \<Rightarrow> (string \<times> decimal) list \<Rightarrow> decimal" where
  "blend_target lcs V volumes =
     sum_list (map (\<lambda>(l, b). if 0 < b
                              then sum_list (map snd (components (dict_get lcs l (Composition []))))
                                   * (b / V)
                              else 0)
                 volumes)"

section \<open>Creating a wine lot: WineLot.create\<close>

text \<open>
  \<^verbatim>\<open>_validate_code\<close>.  The pattern is
  \<^verbatim>\<open>^[A-Z0-9]{1}[A-Z0-9_-]{0,48}[A-Z0-9]{1}$\<close>, matched with \<^verbatim>\<open>re.match\<close>, where
  \<^verbatim>\<open>$\<close> also matches before a newline that ends the string.  A character of a code is
  one \<open>char\<close>.
\<close>

definition upper_alnum :: "char \<Rightarrow> bool" where
  "upper_alnum c = (c \<in> set ''ABCDEFGHIJKLMNOPQRSTUVWXYZ0123456789'')"

definition code_char :: "char \<Rightarrow> bool" where
  "code_char c = (upper_alnum c \<or> c = CHR ''_'' \<or> c = CHR ''-'')"

definition code_pattern :: "string \<Rightarrow> bool" where
  "code_pattern s =
     (2 \<le> length s \<and> length s \<le> 50 \<and> upper_alnum (hd s) \<and> upper_alnum (last s)
      \<and> list_all code_char (butlast (tl s)))"

definition code_regex_match :: "string \<Rightarrow> bool" where
  "code_regex_match s =
     (code_pattern s \<or> (s \<noteq> [] \<and> last s = CHR 0x0A \<and> code_pattern (butlast s)))"

definition validate_code :: "string \<Rightarrow> error option" where
  "validate_code c =
     (if c = [] then Some (ValueError ''Code must be a non-empty string.'')
      else if length c < 2 \<or> 50 < length c
      then Some (ValueError ''Code must be between 2 and 50 characters long.'')
      else if \<not> code_regex_match c
      then Some (ValueError
             ''Code must consist of uppercase alphanumeric characters, hyphens, or underscores.'')
      else None)"

text \<open>\<open>next_id\<close> is the string \<^verbatim>\<open>cls.next_id()\<close> returns, a fresh ULID.\<close>

definition create ::
  "(rat \<Rightarrow> rat) \<Rightarrow> string \<Rightarrow> aggregate_repository \<Rightarrow> string \<Rightarrow> string \<Rightarrow> composition
     \<Rightarrow> error + (wine_lot \<times> aggregate_repository)" where
  "create rnd uuid repo next_id c initial =
     (case validate_code c of
        Some err \<Rightarrow> Inl err
      | None \<Rightarrow>
          apply_to rnd uuid repo new_WineLot
            (WineLotCreated next_id creation_time c
               (map (\<lambda>(component, percent). ComponentAmount component percent)
                  (components initial))))"

section \<open>Recording a received volume: winemaking/use\_cases/receive\_volume.py\<close>

text \<open>
  \<^verbatim>\<open>WineLot.objects.filter(id=lot_id).first()\<close>: the instance of the row with the id, if
  there is one.
\<close>

definition first_wine_lot :: "database \<Rightarrow> string \<Rightarrow> wine_lot option" where
  "first_wine_lot db lot_id =
     (case filter (\<lambda>r. db_id r = lot_id) (wine_lots db) of
        [] \<Rightarrow> None
      | r # rs \<Rightarrow> Some (instance_of_row r))"

text \<open>The domain methods \<^verbatim>\<open>WineLot.receive_volume\<close> and \<^verbatim>\<open>WineLot.destroy\<close>.\<close>

definition receive_volume ::
  "(rat \<Rightarrow> rat) \<Rightarrow> aggregate_repository \<Rightarrow> wine_lot \<Rightarrow> string \<Rightarrow> datetime \<Rightarrow> decimal
     \<Rightarrow> error + (wine_lot \<times> aggregate_repository)" where
  "receive_volume rnd repo self action_id effective_at v =
     (if deleted_at self \<noteq> None
      then Inl (ValueError ''Cannot adjust volume of a deleted wine lot.'')
      else apply_to rnd [] repo self (VolumeReceived (pk self) action_id effective_at v))"

definition destroy ::
  "(rat \<Rightarrow> rat) \<Rightarrow> string \<Rightarrow> datetime \<Rightarrow> aggregate_repository \<Rightarrow> wine_lot
     \<Rightarrow> error + (wine_lot \<times> aggregate_repository)" where
  "destroy rnd uuid now repo self =
     (if deleted_at self \<noteq> None
      then Inl (ValueError ''Wine lot has already been deleted.'')
      else apply_to rnd uuid repo self (WineLotDeleted (pk self) now))"

text \<open>
  \<^verbatim>\<open>record_receive_volume\<close>, the function that \<^verbatim>\<open>store_aggregate_changes\<close> wraps.  \<open>now\<close>
  is the reading of the clock.  The use case also records an \<^verbatim>\<open>Action\<close>, an aggregate with
  a table and an event store of its own, which are not part of this model: \<open>action_id\<close> is
  the id that the new action gets, its \<^verbatim>\<open>effective_at\<close> is the given one or, without one,
  the clock's reading, and the response stands for the action by its id.  The repository
  starts as the last unit of work left it, cleared.  With an \<^verbatim>\<open>effective_at\<close> the lot is
  rebuilt as of one second after it, the volume is received at \<^verbatim>\<open>effective_at\<close>, and the
  events after \<^verbatim>\<open>effective_at\<close> are loaded again.
\<close>

definition record_receive_volume ::
  "(rat \<Rightarrow> rat) \<Rightarrow> (event_row \<Rightarrow> string) \<Rightarrow> datetime \<Rightarrow> string \<Rightarrow> string \<Rightarrow> decimal
     \<Rightarrow> datetime option \<Rightarrow> database
     \<Rightarrow> error + (string \<times> aggregate_repository \<times> (string \<Rightarrow> wine_lot))" where
  "record_receive_volume rnd uuid now action_id lot_id v effective_at0 db =
     (let effective_at = map_option replace_microsecond_0 effective_at0
      in if (case effective_at of None \<Rightarrow> False | Some t \<Rightarrow> now - 2000000 < t)
         then Inl (ValueError ''Effective date must be functionally in the past if provided.'')
         else
           (case first_wine_lot db lot_id of
              None \<Rightarrow> Inl (ValueError (''Wine lot with ID '' @ lot_id @ '' does not exist.''))
            | Some fetched \<Rightarrow>
                (case (case effective_at of
                         None \<Rightarrow> Inr fetched
                       | Some t \<Rightarrow>
                           (case load_editable_aggregates_at_time rnd uuid (wine_lot_events db)
                                   [fetched] (t + 1000000) of
                              Inl err \<Rightarrow> Inl err
                            | Inr d \<Rightarrow>
                                (case map_of d lot_id of
                                   None \<Rightarrow> Inl KeyError
                                 | Some rebuilt \<Rightarrow> Inr rebuilt))) of
                   Inl err \<Rightarrow> Inl err
                 | Inr lot \<Rightarrow>
                     (let action_effective_at = (case effective_at of None \<Rightarrow> now | Some t \<Rightarrow> t)
                      in case receive_volume rnd clear lot action_id action_effective_at v of
                           Inl err \<Rightarrow> Inl err
                         | Inr (received, repo) \<Rightarrow>
                             (case (case effective_at of
                                      None \<Rightarrow> Inr received
                                    | Some t \<Rightarrow>
                                        reapply_downstream_events_from rnd uuid
                                          (wine_lot_events db) received action_effective_at
                                          action_id) of
                                Inl err \<Rightarrow> Inl err
                              | Inr final \<Rightarrow> Inr (action_id, repo, \<lambda>k. final))))))"

text \<open>
  The wrapped function of the tests, \<^verbatim>\<open>_create_wine_lot\<close>: it returns what
  \<^verbatim>\<open>WineLot.create\<close> returns.
\<close>

definition create_wine_lot ::
  "(rat \<Rightarrow> rat) \<Rightarrow> string \<Rightarrow> string \<Rightarrow> composition \<Rightarrow> database
     \<Rightarrow> error + (wine_lot \<times> aggregate_repository \<times> (string \<Rightarrow> wine_lot))" where
  "create_wine_lot rnd next_id c initial db =
     (case create rnd [] clear next_id c initial of
        Inl err \<Rightarrow> Inl err
      | Inr (lot, repo) \<Rightarrow> Inr (lot, repo, \<lambda>k. lot))"

text \<open>
  Replaying a row: \<^verbatim>\<open>get_events_queryset\<close> lists the stored events of an aggregate in the
  default ordering, and the replay loads them onto the identity of the row's instance,
  as the loop of \<^verbatim>\<open>rebuild_aggregates\<close> does for every instance.  A state agrees with a row
  when it has the row's id, version, code, volume and \<^verbatim>\<open>deleted_at\<close>.
\<close>

definition get_events_queryset :: "database \<Rightarrow> string \<Rightarrow> event_row list" where
  "get_events_queryset db k = default_ordering (filter (\<lambda>r. aggregate_id r = k) (wine_lot_events db))"

definition replay :: "(rat \<Rightarrow> rat) \<Rightarrow> (event_row \<Rightarrow> string) \<Rightarrow> database \<Rightarrow> wine_lot_row \<Rightarrow> error + wine_lot" where
  "replay rnd uuid db r =
     load_all rnd (identity (instance_of_row r)) (with_uuid uuid (get_events_queryset db (db_id r)))"

definition agrees_with_row :: "wine_lot \<Rightarrow> wine_lot_row \<Rightarrow> bool" where
  "agrees_with_row s r =
     (pk s = db_id r \<and> version s = Some (db_version r) \<and> code s = db_code r
      \<and> volume s = db_volume r \<and> deleted_at s = db_deleted_at r)"

definition replay_equivalent ::
  "(rat \<Rightarrow> rat) \<Rightarrow> (event_row \<Rightarrow> string) \<Rightarrow> database \<Rightarrow> wine_lot_row \<Rightarrow> bool" where
  "replay_equivalent rnd uuid db r =
     (case replay rnd uuid db r of Inl err \<Rightarrow> False | Inr s \<Rightarrow> agrees_with_row s r)"

section \<open>Example data\<close>

text \<open>
  The first scenario of the specification, used to evaluate the definitions: lot \<open>A\<close>
  of vintage 2022 and lot \<open>B\<close> of vintage 2023 are created; \<open>A\<close> receives 5 and \<open>B\<close>
  receives 10 at second 10; at second 20 the action \<open>X3\<close> blends 5 from \<open>B\<close> into \<open>A\<close>.
  Arithmetic is exact (\<open>exact\<close>), and \<^verbatim>\<open>uuid4\<close> is never reached (\<open>no_uuid\<close>).
\<close>

definition exact :: "rat \<Rightarrow> rat" where
  "exact x = x"

text \<open>
  A rounding that is off on every value by the most that the precision of the context
  allows: one unit in the 28th significant digit, upwards.
\<close>

definition worst_rounding :: "rat \<Rightarrow> rat" where
  "worst_rounding x = x * (1 + 1 / 10 ^ 27)"

definition no_uuid :: "event_row \<Rightarrow> string" where
  "no_uuid r = []"

definition vintage_2022 :: lot_component where
  "vintage_2022 = LotComponent ''Test'' ''Test'' 2022"

definition vintage_2023 :: lot_component where
  "vintage_2023 = LotComponent ''Test'' ''Test'' 2023"

definition example_history :: "wine_lot_event list" where
  "example_history =
     [WineLotCreated ''A'' 0 ''CC-REC-1'' [ComponentAmount vintage_2022 1],
      WineLotCreated ''B'' 0 ''CC-BLD-1'' [ComponentAmount vintage_2023 1],
      VolumeReceived ''A'' ''X1'' 10000000 5,
      VolumeReceived ''B'' ''X2'' 10000000 10,
      VolumeMoved ''B'' ''X3'' 20000000 5 ''A'',
      VolumeBlended ''A'' ''X3'' 20000000 [(''B'', 5)] 5]"

definition example_events :: "event_row list" where
  "example_events = store 0 1 example_history"

definition example_db :: database where
  "example_db =
     \<lparr>wine_lots =
        [\<lparr>db_id = ''A'', db_version = 1, db_code = ''CC-REC-1'', db_volume = 10, db_deleted_at = None\<rparr>,
         \<lparr>db_id = ''B'', db_version = 1, db_code = ''CC-BLD-1'', db_volume = 5, db_deleted_at = None\<rparr>],
      wine_lot_events = example_events,
      next_event_id = 7\<rparr>"

definition example_lot :: wine_lot where
  "example_lot =
     \<lparr>pk = ''A'', version = Some 1, code = ''CC-REC-1'', volume = 10, deleted_at = None,
      adding = False, is_before_creation = False, persistable = True, recorded_events = [],
      deleted_event_models = []\<rparr>"

text \<open>
  The instance and the repository that \<^verbatim>\<open>WineLot.create\<close> returns for lot \<open>A\<close>, the
  row its creation event is stored as, and the row of a volume received one second
  before 1970.
\<close>

definition example_unsaved :: wine_lot where
  "example_unsaved =
     new_WineLot\<lparr>pk := ''A'', code := ''CC-REC-1'', recorded_events := take 1 example_history\<rparr>"

definition example_repository :: aggregate_repository where
  "example_repository =
     \<lparr>repo_events = take 1 example_history,
      repo_new_aggregate_events = [(''A'', take 1 example_history)],
      repo_event_stores = [(WineLotEventStore, take 1 example_history)],
      repo_deleted_event_models = [(WineLotEventStore, [])]\<rparr>"

definition example_creation_row :: event_row where
  "example_creation_row =
     \<lparr>row_id = 1, aggregate_id = ''A'',
      event_data = WineLotCreated ''A'' 0 ''CC-REC-1'' [ComponentAmount vintage_2022 1],
      occurred_at = 0, sequence_number = None\<rparr>"

definition early_row :: event_row where
  "early_row =
     \<lparr>row_id = 7, aggregate_id = ''A'',
      event_data = VolumeReceived ''A'' ''X0'' (- 1000000) 5,
      occurred_at = - 1000000, sequence_number = Some ''X0''\<rparr>"

text \<open>
  A lot that is created and deleted, and two runs in which \<^verbatim>\<open>uuid4\<close> returns different
  strings.
\<close>

definition deleted_history :: "wine_lot_event list" where
  "deleted_history =
     [WineLotCreated ''A'' 0 ''LOT'' [ComponentAmount vintage_2022 1],
      WineLotDeleted ''A'' 5000000]"

definition second_uuid :: "event_row \<Rightarrow> string" where
  "second_uuid r = ''bb''"

text \<open>
  Units of work: the wrapped function that creates lot \<open>A\<close> (the body of the tests'
  \<^verbatim>\<open>_create_wine_lot\<close>), on an empty database; a wrapped function that registers an
  instance of lot \<open>A\<close> loaded at a version the row no longer has; one subscriber class
  for every event, whose \<^verbatim>\<open>handle\<close> returns (\<open>accepting\<close>) or raises (\<open>refusing\<close>).
\<close>

definition empty_db :: database where
  "empty_db = \<lparr>wine_lots = [], wine_lot_events = [], next_event_id = 1\<rparr>"

definition created_db :: database where
  "created_db =
     \<lparr>wine_lots =
        [\<lparr>db_id = ''A'', db_version = 1, db_code = ''CC-REC-1'', db_volume = 0, db_deleted_at = None\<rparr>],
      wine_lot_events = [example_creation_row],
      next_event_id = 2\<rparr>"

definition create_lot_a ::
  "database \<Rightarrow> error + (wine_lot \<times> aggregate_repository \<times> (string \<Rightarrow> wine_lot))" where
  "create_lot_a db =
     (case create exact [] clear ''A'' ''CC-REC-1'' (Composition [(vintage_2022, 1)]) of
        Inl err \<Rightarrow> Inl err
      | Inr (lot, repo) \<Rightarrow> Inr (lot, repo, \<lambda>k. lot))"

definition stale_update ::
  "database \<Rightarrow> error + (unit \<times> aggregate_repository \<times> (string \<Rightarrow> wine_lot))" where
  "stale_update db =
     Inr ((), clear\<lparr>repo_new_aggregate_events := [(''A'', [])]\<rparr>,
          \<lambda>k. example_lot\<lparr>version := Some 3\<rparr>)"

definition one_subscriber :: "wine_lot_event \<Rightarrow> string list" where
  "one_subscriber e = [''Projector'']"

definition accepting :: "string \<Rightarrow> wine_lot_event \<Rightarrow> bool" where
  "accepting s e = True"

definition refusing :: "string \<Rightarrow> wine_lot_event \<Rightarrow> bool" where
  "refusing s e = False"

text \<open>
  The two dicts of the projection's loop before it reaches the blend of the example; and
  a history in which lot \<open>A\<close> holds a negative volume when 1000 is blended into it
  (\<^verbatim>\<open>receive_volume\<close> accepts any volume).
\<close>

definition compositions_before_blend :: "(string \<times> composition) list" where
  "compositions_before_blend =
     [(''A'', Composition [(vintage_2022, 1)]), (''B'', Composition [(vintage_2023, 1)])]"

definition lots_before_blend :: "(string \<times> wine_lot) list" where
  "lots_before_blend =
     [(''A'', new_WineLot\<lparr>pk := ''A'', code := ''CC-REC-1'', volume := 5\<rparr>),
      (''B'', new_WineLot\<lparr>pk := ''B'', code := ''CC-BLD-1'', volume := 5\<rparr>)]"

definition negative_history :: "wine_lot_event list" where
  "negative_history =
     [WineLotCreated ''A'' 0 ''CC-REC-1'' [ComponentAmount vintage_2022 1],
      WineLotCreated ''B'' 0 ''CC-BLD-1'' [ComponentAmount vintage_2023 1],
      VolumeReceived ''A'' ''X1'' 10000000 (- 1 / 100),
      VolumeReceived ''B'' ''X2'' 10000000 1000,
      VolumeMoved ''B'' ''X3'' 20000000 1000 ''A'',
      VolumeBlended ''A'' ''X3'' 20000000 [(''B'', 1000)] 1000]"

definition example_lot_b :: wine_lot where
  "example_lot_b = example_lot\<lparr>pk := ''B'', code := ''CC-BLD-1'', volume := 5\<rparr>"

lemmas eval_defs =
  calculate_composition_def build_lot_compositions_def relevant_events_def blend_events_def
  default_ordering_def canonical_key_def relevant_events_filter_def composition_step_def
  created_composition_def new_Composition_def validate_percentages_def total_percentage_def
  dec_sum_def dec_add_def dec_sub_def dec_mul_def dec_div_def load_def get_all_lot_ids_def
  blend_composition_def existing_contribution_def dict_get_def new_WineLot_def
  replace_microsecond_0_def Let_def exact_def no_uuid_def vintage_2022_def vintage_2023_def
  example_history_def example_events_def example_db_def example_lot_def example_unsaved_def
  example_repository_def example_creation_row_def early_row_def deleted_history_def
  second_uuid_def creation_time_def empty_db_def created_db_def one_subscriber_def
  accepting_def refusing_def scaled_def positive_sources_def claimed_blend_def
  new_total_volume_of_def negative_history_def compositions_before_blend_def
  lots_before_blend_def example_lot_b_def with_uuid_def insert_row_def editable_fields_def
  update_editable_fields_def varchar_def numeric_10_2_def round_half_away_def
  floor_rat_numeral floor_rat_one_numeral

section \<open>Optimistic versioning of \<^verbatim>\<open>AggregateModel.persist\<close>\<close>

text \<open>
  What \<^verbatim>\<open>persist\<close> does to the stored versions: an insert adds a row of version 1, and
  an update leaves every stored version as it was, because \<^verbatim>\<open>version\<close> is not among the
  editable fields that the \<^verbatim>\<open>update\<close> writes.  Only the instance in memory counts up.
\<close>

lemma persist_stored_versions:
  "persist table self = Inr (self', table') \<Longrightarrow>
     map db_version table' = map db_version table @ (if adding self then [1] else [])"
  by (auto simp: persist_def Let_def insert_row_def update_editable_fields_def comp_def
      split: if_splits option.splits sum.splits prod.splits)

lemma persist_instance_version:
  "persist table self = Inr (self', table') \<Longrightarrow>
     version self' = (if adding self then Some 1 else map_option Suc (version self))"
  by (auto simp: persist_def Let_def split: if_splits option.splits sum.splits)

lemma persist_out_of_date:
  "persistable self \<Longrightarrow> \<not> adding self \<Longrightarrow> version self = Some v \<Longrightarrow>
   editable_fields self = Inr written \<Longrightarrow>
     (persist table self = Inl OutOfDateVersionException)
       = (filter (\<lambda>r. db_id r = pk self \<and> db_version r = v) table = [])"
  by (auto simp: persist_def Let_def editable_fields_def split: sum.splits)

text \<open>
  Claim C4 (persist inserts with version 1 when new; otherwise it compares on id and
  version and increments the version by exactly 1, so that after a successful persist of
  an existing aggregate the new version is the old one plus 1).  Evaluated on the stored
  row of lot \<open>A\<close> at version 1: a writer that loaded version 1 persists a new volume;
  the instance in memory moves to version 2, the stored row keeps version 1; a second
  writer that had loaded version 1 before the first one persisted is then not refused.
\<close>

theorem persist_keeps_stored_version:
  "persist (wine_lots example_db) (example_lot\<lparr>volume := 7\<rparr>)
     = Inr (example_lot\<lparr>volume := 7, version := Some 2\<rparr>,
            [\<lparr>db_id = ''A'', db_version = 1, db_code = ''CC-REC-1'', db_volume = 7,
              db_deleted_at = None\<rparr>,
             \<lparr>db_id = ''B'', db_version = 1, db_code = ''CC-BLD-1'', db_volume = 5,
              db_deleted_at = None\<rparr>])
   \<and> persist
       [\<lparr>db_id = ''A'', db_version = 1, db_code = ''CC-REC-1'', db_volume = 7,
         db_deleted_at = None\<rparr>,
        \<lparr>db_id = ''B'', db_version = 1, db_code = ''CC-BLD-1'', db_volume = 5,
         db_deleted_at = None\<rparr>]
       (example_lot\<lparr>volume := 8\<rparr>)
     = Inr (example_lot\<lparr>volume := 8, version := Some 2\<rparr>,
            [\<lparr>db_id = ''A'', db_version = 1, db_code = ''CC-REC-1'', db_volume = 8,
              db_deleted_at = None\<rparr>,
             \<lparr>db_id = ''B'', db_version = 1, db_code = ''CC-BLD-1'', db_volume = 5,
              db_deleted_at = None\<rparr>])"
  by (simp add: persist_def example_db_def example_lot_def Let_def update_editable_fields_def
      editable_fields_def varchar_def numeric_10_2_def round_half_away_def floor_rat_numeral)

section \<open>The temporal cutoff of the projection and of the edit replay\<close>

lemma get_all_lot_ids_example:
  "get_all_lot_ids example_events ''A'' (Some 20000000) (Some ''X3'') = {''A'', ''B''}"
  "get_all_lot_ids example_events ''A'' (Some 20000000) (Some ''X2'') = {''A''}"
  "get_all_lot_ids example_events ''A'' (Some 20500000) (Some ''X2'') = {''A'', ''B''}"
  by (simp_all add: eval_defs insert_commute)

text \<open>
  Claim C5 as the code has it.  The cutoff of the composition projection selects a row,
  with \<^verbatim>\<open>effective_at\<close> alone, iff \<^verbatim>\<open>occurred_at <= effective_at\<close>, and with
  \<^verbatim>\<open>effective_at\<close> and \<^verbatim>\<open>action_id\<close>, iff \<^verbatim>\<open>occurred_at < effective_at\<close> or
  \<^verbatim>\<open>occurred_at = effective_at\<close> and the row has a sequence number that is at most
  \<^verbatim>\<open>action_id\<close>; on the same table, lot ids and cutoff the querysets of
  \<^verbatim>\<open>_build_lot_compositions\<close> and of \<^verbatim>\<open>load_editable_aggregates_at_time_and_point\<close> (without
  \<^verbatim>\<open>action_id\<close>, of \<^verbatim>\<open>load_editable_aggregates_at_time\<close>) list the same rows in the same
  order.  \<^verbatim>\<open>calculate_composition\<close> itself folds the rows that the replay reads at
  \<^verbatim>\<open>effective_at\<close> rounded down to the whole second, which is \<^verbatim>\<open>effective_at\<close> when that is a
  whole number of seconds.
\<close>

theorem cutoff_predicates_agree:
  "relevant_events_filter (Some t) None r = (occurred_at r \<le> t)
   \<and> relevant_events_filter (Some t) (Some a) r =
       (occurred_at r < t \<or> (occurred_at r = t \<and> (\<exists>x. sequence_number r = Some x \<and> x \<le> a)))
   \<and> relevant_events table (set keys) (Some t) (Some a) = events_after_and_including table keys t a
   \<and> relevant_events table (set keys) (Some t) None = events_before_or_including table keys t
   \<and> (filter (\<lambda>r. db_id r = lot_id) (wine_lots db) \<noteq> []
        \<and> set keys = get_all_lot_ids (wine_lot_events db) lot_id
                       (Some (replace_microsecond_0 t)) (Some a) \<longrightarrow>
        calculate_composition rnd uuid db lot_id (Some t) (Some a) =
          (case composition_fold rnd uuid ([], [])
                  (events_after_and_including (wine_lot_events db) keys
                     (replace_microsecond_0 t) a) of
             Inl err \<Rightarrow> Inl err
           | Inr (lot_compositions, lots) \<Rightarrow>
               (case map_of lot_compositions lot_id of None \<Rightarrow> Inl KeyError | Some c \<Rightarrow> Inr c)))
   \<and> (filter (\<lambda>r. db_id r = lot_id) (wine_lots db) \<noteq> []
        \<and> set keys = get_all_lot_ids (wine_lot_events db) lot_id
                       (Some (replace_microsecond_0 t)) None \<longrightarrow>
        calculate_composition rnd uuid db lot_id (Some t) None =
          (case composition_fold rnd uuid ([], [])
                  (events_before_or_including (wine_lot_events db) keys
                     (replace_microsecond_0 t)) of
             Inl err \<Rightarrow> Inl err
           | Inr (lot_compositions, lots) \<Rightarrow>
               (case map_of lot_compositions lot_id of None \<Rightarrow> Inl KeyError | Some c \<Rightarrow> Inr c)))
   \<and> (t mod 1000000 = 0 \<longrightarrow> replace_microsecond_0 t = t)"
proof -
  have lte: "sequence_number_lte (sequence_number r) a = (\<exists>x. sequence_number r = Some x \<and> x \<le> a)"
    by (cases "sequence_number r") simp_all
  have p1: "relevant_events_filter (Some u) (Some a) = events_after_and_including_filter u a" for u
    by (rule ext) (simp add: relevant_events_filter_def events_after_and_including_filter_def)
  have p2: "relevant_events_filter (Some u) None = events_before_or_including_filter u" for u
    by (rule ext) (simp add: relevant_events_filter_def events_before_or_including_filter_def)
  have w1: "relevant_events tb (set keys) (Some u) (Some a) = events_after_and_including tb keys u a"
    for tb u
    unfolding relevant_events_def events_after_and_including_def p1 by simp
  have w2: "relevant_events tb (set keys) (Some u) None = events_before_or_including tb keys u"
    for tb u
    unfolding relevant_events_def events_before_or_including_def p2 by simp
  have c1: "relevant_events_filter (Some t) None r = (occurred_at r \<le> t)"
    by (simp add: relevant_events_filter_def)
  have c2: "relevant_events_filter (Some t) (Some a) r =
       (occurred_at r < t \<or> (occurred_at r = t \<and> (\<exists>x. sequence_number r = Some x \<and> x \<le> a)))"
    by (simp add: relevant_events_filter_def lte)
  have c5: "filter (\<lambda>r. db_id r = lot_id) (wine_lots db) \<noteq> []
        \<and> set keys = get_all_lot_ids (wine_lot_events db) lot_id
                       (Some (replace_microsecond_0 t)) (Some a) \<longrightarrow>
        calculate_composition rnd uuid db lot_id (Some t) (Some a) =
          (case composition_fold rnd uuid ([], [])
                  (events_after_and_including (wine_lot_events db) keys
                     (replace_microsecond_0 t) a) of
             Inl err \<Rightarrow> Inl err
           | Inr (lot_compositions, lots) \<Rightarrow>
               (case map_of lot_compositions lot_id of None \<Rightarrow> Inl KeyError | Some c \<Rightarrow> Inr c))"
    unfolding w1 [symmetric]
    by (auto simp: calculate_composition_def build_lot_compositions_def Let_def
        split: sum.splits prod.splits)
  have c6: "filter (\<lambda>r. db_id r = lot_id) (wine_lots db) \<noteq> []
        \<and> set keys = get_all_lot_ids (wine_lot_events db) lot_id
                       (Some (replace_microsecond_0 t)) None \<longrightarrow>
        calculate_composition rnd uuid db lot_id (Some t) None =
          (case composition_fold rnd uuid ([], [])
                  (events_before_or_including (wine_lot_events db) keys
                     (replace_microsecond_0 t)) of
             Inl err \<Rightarrow> Inl err
           | Inr (lot_compositions, lots) \<Rightarrow>
               (case map_of lot_compositions lot_id of None \<Rightarrow> Inl KeyError | Some c \<Rightarrow> Inr c))"
    unfolding w2 [symmetric]
    by (auto simp: calculate_composition_def build_lot_compositions_def Let_def
        split: sum.splits prod.splits)
  have c7: "t mod 1000000 = 0 \<longrightarrow> replace_microsecond_0 t = t"
    by (simp add: replace_microsecond_0_def)
  from c1 c2 w1 [of table t] w2 [of table t] c5 c6 c7 show ?thesis by blast
qed

theorem cutoff_predicates_agree_witness:
  "calculate_composition exact no_uuid example_db ''A'' (Some 20000001) (Some ''X3'')
     = Inr (Composition [(vintage_2022, 1 / 2), (vintage_2023, 1 / 2)])
   \<and> events_after_and_including example_events [''A'', ''B''] 20000000 ''X3'' = example_events"
proof -
  have present: "filter (\<lambda>r. db_id r = ''A'') (wine_lots example_db) \<noteq> []"
    by (simp add: example_db_def)
  have t: "replace_microsecond_0 20000001 = 20000000"
    by (simp add: replace_microsecond_0_def)
  have keys: "set [''A'', ''B''] = get_all_lot_ids (wine_lot_events example_db) ''A''
                       (Some (replace_microsecond_0 20000001)) (Some ''X3'')"
    unfolding t by (simp add: example_db_def get_all_lot_ids_example)
  have window: "events_after_and_including example_events [''A'', ''B''] 20000000 ''X3'' = example_events"
    by (simp add: events_after_and_including_def events_after_and_including_filter_def eval_defs)
  from cutoff_predicates_agree [of 20000001 _ "''X3''" _ "[''A'', ''B'']" "''A''" example_db exact no_uuid]
    present keys
  have "calculate_composition exact no_uuid example_db ''A'' (Some 20000001) (Some ''X3'') =
          (case composition_fold exact no_uuid ([], [])
                  (events_after_and_including (wine_lot_events example_db) [''A'', ''B'']
                     (replace_microsecond_0 20000001) ''X3'') of
             Inl err \<Rightarrow> Inl err
           | Inr (lot_compositions, lots) \<Rightarrow>
               (case map_of lot_compositions ''A'' of None \<Rightarrow> Inl KeyError | Some c \<Rightarrow> Inr c))"
    by blast
  then have "calculate_composition exact no_uuid example_db ''A'' (Some 20000001) (Some ''X3'')
     = Inr (Composition [(vintage_2022, 1 / 2), (vintage_2023, 1 / 2)])"
    unfolding t by (simp add: example_db_def window) (simp add: eval_defs)
  with window show ?thesis by blast
qed

text \<open>
  Claim C5 as stated (\<^verbatim>\<open>calculate_composition\<close> and
  \<^verbatim>\<open>load_editable_aggregates_at_time_and_point\<close> apply the same predicate to the same inputs)
  fails for a cutoff that is not a whole second.  In the example, with the cutoff at second
  20.5 and the sequence number \<open>X2\<close>, the replay reads all six rows, the blend at second 20
  among them, and the projection of those rows gives lot \<open>A\<close> half of each vintage;
  \<^verbatim>\<open>calculate_composition\<close> cuts at second 20, where the blend \<open>X3\<close> comes after \<open>X2\<close>,
  and returns the composition of lot \<open>A\<close> before the blend.
\<close>

theorem projection_truncates_cutoff_counterexample:
  "events_after_and_including example_events [''A'', ''B''] 20500000 ''X2'' = example_events
   \<and> relevant_events example_events {''A'', ''B''} (Some 20500000) (Some ''X2'') = example_events
   \<and> build_lot_compositions exact no_uuid example_events
        (get_all_lot_ids example_events ''A'' (Some 20500000) (Some ''X2''))
        (Some 20500000) (Some ''X2'')
     = Inr [(''A'', Composition [(vintage_2022, 1 / 2), (vintage_2023, 1 / 2)]),
            (''B'', Composition [(vintage_2023, 1)])]
   \<and> calculate_composition exact no_uuid example_db ''A'' (Some 20500000) (Some ''X2'')
     = Inr (Composition [(vintage_2022, 1)])"
  by (simp add: events_after_and_including_def events_after_and_including_filter_def eval_defs
      insert_commute)

section \<open>The checks of \<^verbatim>\<open>calculate_composition\<close>\<close>

lemma replace_microsecond_0_whole:
  "replace_microsecond_0 t mod 1000000 = 0 \<and> replace_microsecond_0 t \<le> t
   \<and> t < replace_microsecond_0 t + 1000000"
  unfolding replace_microsecond_0_def by presburger

text \<open>
  Claim C8.  \<^verbatim>\<open>calculate_composition\<close> raises \<^verbatim>\<open>ValueError\<close> when \<^verbatim>\<open>action_id\<close> is given
  without \<^verbatim>\<open>effective_at\<close>; it raises \<^verbatim>\<open>ValueError\<close> when no wine lot has the given id;
  otherwise the cutoff it passes on is \<^verbatim>\<open>effective_at\<close> rounded down to a whole second:
  a multiple of one million microseconds, at most \<^verbatim>\<open>effective_at\<close> and less than a second
  below it.
\<close>

theorem calculate_composition_checks:
  "calculate_composition rnd uuid db lot_id None (Some a)
     = Inl (ValueError ''effective_at must be provided when action_id is specified.'')
   \<and> (filter (\<lambda>r. db_id r = lot_id) (wine_lots db) = [] \<longrightarrow>
        (\<exists>msg. calculate_composition rnd uuid db lot_id effective_at action_id = Inl (ValueError msg)))
   \<and> (filter (\<lambda>r. db_id r = lot_id) (wine_lots db) \<noteq> [] \<longrightarrow>
        calculate_composition rnd uuid db lot_id (Some t) action_id =
          (case build_lot_compositions rnd uuid (wine_lot_events db)
                  (get_all_lot_ids (wine_lot_events db) lot_id (Some (t - t mod 1000000)) action_id)
                  (Some (t - t mod 1000000)) action_id of
             Inl err \<Rightarrow> Inl err
           | Inr lot_compositions \<Rightarrow>
               (case map_of lot_compositions lot_id of None \<Rightarrow> Inl KeyError | Some c \<Rightarrow> Inr c)))
   \<and> (t - t mod 1000000) mod 1000000 = 0 \<and> t - t mod 1000000 \<le> t \<and> t < t - t mod 1000000 + 1000000"
  using replace_microsecond_0_whole [of t]
  by (simp add: calculate_composition_def Let_def replace_microsecond_0_def)

theorem calculate_composition_checks_witness:
  "calculate_composition exact no_uuid example_db ''A'' None (Some ''X3'')
     = Inl (ValueError ''effective_at must be provided when action_id is specified.'')
   \<and> calculate_composition exact no_uuid example_db ''C'' (Some 20000000) None
     = Inl (ValueError ''Wine lot with ID C does not exist.'')
   \<and> calculate_composition exact no_uuid example_db ''A'' (Some 10999999) None
     = Inr (Composition [(vintage_2022, 1)])
   \<and> calculate_composition exact no_uuid example_db ''A'' (Some 20000001) None
     = Inr (Composition [(vintage_2022, 1 / 2), (vintage_2023, 1 / 2)])"
proof -
  have present: "filter (\<lambda>r. db_id r = ''A'') (wine_lots example_db) \<noteq> []"
    by (simp add: example_db_def)
  have absent: "filter (\<lambda>r. db_id r = ''C'') (wine_lots example_db) = []"
    by (simp add: example_db_def)
  note at_A = calculate_composition_checks [of exact no_uuid example_db "''A''" "''X3''"]
  note at_C = calculate_composition_checks
    [of exact no_uuid example_db "''C''" "''X3''" "Some 20000000" None]
  have c1: "calculate_composition exact no_uuid example_db ''A'' None (Some ''X3'')
     = Inl (ValueError ''effective_at must be provided when action_id is specified.'')"
    using at_A by blast
  have "\<exists>msg. calculate_composition exact no_uuid example_db ''C'' (Some 20000000) None
     = Inl (ValueError msg)"
    using at_C absent by blast
  then have c2: "calculate_composition exact no_uuid example_db ''C'' (Some 20000000) None
     = Inl (ValueError ''Wine lot with ID C does not exist.'')"
    by (simp add: calculate_composition_def Let_def example_db_def)
  note at_3 = calculate_composition_checks
    [of exact no_uuid example_db "''A''" "''X3''" None None 10999999]
  from at_3 present
  have "calculate_composition exact no_uuid example_db ''A'' (Some 10999999) None =
          (case build_lot_compositions exact no_uuid (wine_lot_events example_db)
                  (get_all_lot_ids (wine_lot_events example_db) ''A''
                     (Some (10999999 - 10999999 mod 1000000)) None)
                  (Some (10999999 - 10999999 mod 1000000)) None of
             Inl err \<Rightarrow> Inl err
           | Inr lot_compositions \<Rightarrow>
               (case map_of lot_compositions ''A'' of None \<Rightarrow> Inl KeyError | Some c \<Rightarrow> Inr c))"
    by blast
  then have c3: "calculate_composition exact no_uuid example_db ''A'' (Some 10999999) None
     = Inr (Composition [(vintage_2022, 1)])"
    by (simp add: eval_defs)
  note at_4 = calculate_composition_checks
    [of exact no_uuid example_db "''A''" "''X3''" None None 20000001]
  from at_4 present
  have "calculate_composition exact no_uuid example_db ''A'' (Some 20000001) None =
          (case build_lot_compositions exact no_uuid (wine_lot_events example_db)
                  (get_all_lot_ids (wine_lot_events example_db) ''A''
                     (Some (20000001 - 20000001 mod 1000000)) None)
                  (Some (20000001 - 20000001 mod 1000000)) None of
             Inl err \<Rightarrow> Inl err
           | Inr lot_compositions \<Rightarrow>
               (case map_of lot_compositions ''A'' of None \<Rightarrow> Inl KeyError | Some c \<Rightarrow> Inr c))"
    by blast
  then have c4: "calculate_composition exact no_uuid example_db ''A'' (Some 20000001) None
     = Inr (Composition [(vintage_2022, 1 / 2), (vintage_2023, 1 / 2)])"
    by (simp add: eval_defs)
  from c1 c2 c3 c4 show ?thesis by blast
qed

section \<open>The example lot as \<^verbatim>\<open>WineLot.create\<close> returns it\<close>

lemma create_example:
  "create exact [] clear ''A'' ''CC-REC-1'' (Composition [(vintage_2022, 1)])
     = Inr (example_unsaved, example_repository)"
  by (simp add: create_def validate_code_def code_regex_match_def code_pattern_def upper_alnum_def
      code_char_def apply_to_def load_def new_WineLot_def is_persistable_def add_def dd_get_def
      dd_extend_def get_event_model_def clear_def creation_time_def example_unsaved_def
      example_repository_def example_history_def vintage_2022_def Let_def)

section \<open>What \<^verbatim>\<open>AggregateRepository.add\<close> buffers\<close>

lemma dd_get_extend_same: "dd_get (dd_extend d k xs) k = dd_get d k @ xs"
  by (simp add: dd_get_def dd_extend_def update_conv')

lemma dd_get_extend_other: "k' \<noteq> k \<Longrightarrow> dd_get (dd_extend d k xs) k' = dd_get d k'"
  by (simp add: dd_get_def dd_extend_def update_conv')

lemma dd_extend_nothing: "dd_extend (dd_extend d k xs) k [] = dd_extend d k xs"
  by (simp add: dd_get_def dd_extend_def update_conv')

lemma add_buffers:
  "dd_get (repo_new_aggregate_events (add repo a)) (pk a)
     = dd_get (repo_new_aggregate_events repo) (pk a)
       @ drop (length (dd_get (repo_new_aggregate_events repo) (pk a))) (recorded_events a)"
  "dd_get (repo_event_stores (add repo a)) (get_event_model a)
     = dd_get (repo_event_stores repo) (get_event_model a)
       @ drop (length (dd_get (repo_new_aggregate_events repo) (pk a))) (recorded_events a)"
  "repo_events (add repo a)
     = repo_events repo
       @ drop (length (dd_get (repo_new_aggregate_events repo) (pk a))) (recorded_events a)"
  by (simp_all add: add_def Let_def dd_get_extend_same)

lemma add_twice_nothing_new:
  "drop (length (dd_get (repo_new_aggregate_events (add repo a)) (pk a))) (recorded_events a) = []"
  by (simp add: add_buffers)

text \<open>
  Claim C9 as the code has it.  \<^verbatim>\<open>add\<close> appends to the aggregate's list in
  \<^verbatim>\<open>_new_aggregate_events\<close>, to its event store's list in \<^verbatim>\<open>_event_stores\<close> and to
  \<^verbatim>\<open>_events\<close> exactly the recorded events beyond the number already buffered for the
  aggregate, and leaves the lists of other aggregates alone; a second \<^verbatim>\<open>add\<close> right after
  leaves the three buffers unchanged.  When the events buffered for the aggregate are the
  first of its recorded events, the buffer after \<^verbatim>\<open>add\<close> is the list of recorded events
  itself, every recorded event once; and \<^verbatim>\<open>apply\<close> keeps it so: from a repository whose
  buffer for the aggregate is its list of recorded events, as it is for an instance created
  or fetched in the unit of work, every \<^verbatim>\<open>apply\<close> buffers the new event and nothing else.
\<close>

theorem add_appends_unbuffered_suffix:
  "dd_get (repo_new_aggregate_events (add repo a)) (pk a)
     = dd_get (repo_new_aggregate_events repo) (pk a)
       @ drop (length (dd_get (repo_new_aggregate_events repo) (pk a))) (recorded_events a)
   \<and> dd_get (repo_event_stores (add repo a)) (get_event_model a)
     = dd_get (repo_event_stores repo) (get_event_model a)
       @ drop (length (dd_get (repo_new_aggregate_events repo) (pk a))) (recorded_events a)
   \<and> repo_events (add repo a)
     = repo_events repo
       @ drop (length (dd_get (repo_new_aggregate_events repo) (pk a))) (recorded_events a)
   \<and> (\<forall>k. k \<noteq> pk a \<longrightarrow>
         dd_get (repo_new_aggregate_events (add repo a)) k = dd_get (repo_new_aggregate_events repo) k)
   \<and> repo_new_aggregate_events (add (add repo a) a) = repo_new_aggregate_events (add repo a)
   \<and> repo_event_stores (add (add repo a) a) = repo_event_stores (add repo a)
   \<and> repo_events (add (add repo a) a) = repo_events (add repo a)
   \<and> (dd_get (repo_new_aggregate_events repo) (pk a)
        = take (length (dd_get (repo_new_aggregate_events repo) (pk a))) (recorded_events a)
      \<longrightarrow> dd_get (repo_new_aggregate_events (add repo a)) (pk a) = recorded_events a)
   \<and> (\<forall>rnd uuid e a' repo'.
         apply_to rnd uuid repo a e = Inr (a', repo') \<and> persistable a
         \<and> dd_get (repo_new_aggregate_events repo) (pk a') = recorded_events a \<longrightarrow>
           recorded_events a' = recorded_events a @ [e]
           \<and> dd_get (repo_new_aggregate_events repo') (pk a') = recorded_events a'
           \<and> repo_events repo' = repo_events repo @ [e])"
proof -
  let ?old = "dd_get (repo_new_aggregate_events repo) (pk a)"
  let ?sfx = "drop (length ?old) (recorded_events a)"
  have other: "\<forall>k. k \<noteq> pk a \<longrightarrow>
         dd_get (repo_new_aggregate_events (add repo a)) k = dd_get (repo_new_aggregate_events repo) k"
    by (simp add: add_def Let_def dd_get_extend_other)
  have none: "drop (length (dd_get (repo_new_aggregate_events (add repo a)) (pk a)))
                (recorded_events a) = []"
    by (rule add_twice_nothing_new)
  have t1: "repo_new_aggregate_events (add (add repo a) a) = repo_new_aggregate_events (add repo a)"
    unfolding add_def [of "add repo a" a] Let_def none
    by (simp add: add_def Let_def dd_extend_nothing)
  have t2: "repo_event_stores (add (add repo a) a) = repo_event_stores (add repo a)"
    unfolding add_def [of "add repo a" a] Let_def none
    by (simp add: add_def Let_def dd_extend_nothing)
  have t3: "repo_events (add (add repo a) a) = repo_events (add repo a)"
    unfolding add_def [of "add repo a" a] Let_def none by simp
  have pre: "?old = take (length ?old) (recorded_events a) \<longrightarrow>
      dd_get (repo_new_aggregate_events (add repo a)) (pk a) = recorded_events a"
  proof
    assume "?old = take (length ?old) (recorded_events a)"
    then have "?old @ ?sfx = recorded_events a"
      by (metis append_take_drop_id)
    then show "dd_get (repo_new_aggregate_events (add repo a)) (pk a) = recorded_events a"
      by (simp add: add_buffers)
  qed
  have step: "\<forall>rnd uuid e a' repo'.
         apply_to rnd uuid repo a e = Inr (a', repo') \<and> persistable a
         \<and> dd_get (repo_new_aggregate_events repo) (pk a') = recorded_events a \<longrightarrow>
           recorded_events a' = recorded_events a @ [e]
           \<and> dd_get (repo_new_aggregate_events repo') (pk a') = recorded_events a'
           \<and> repo_events repo' = repo_events repo @ [e]"
  proof (intro allI impI, elim conjE)
    fix rnd uuid e a' repo'
    assume run: "apply_to rnd uuid repo a e = Inr (a', repo')" and p: "persistable a"
      and buf: "dd_get (repo_new_aggregate_events repo) (pk a') = recorded_events a"
    from run obtain l where l: "load rnd uuid a e = Inr l"
      and a': "a' = l\<lparr>recorded_events := recorded_events l @ [e]\<rparr>"
      and repo': "repo' = (if is_persistable a' then add repo a' else repo)"
      by (auto simp: apply_to_def Let_def split: sum.splits)
    have same: "recorded_events l = recorded_events a \<and> persistable l = persistable a"
      using l by (cases e) (auto simp: load_def split: option.splits if_splits)
    have rec: "recorded_events a' = recorded_events a @ [e]"
      using a' same by simp
    have "is_persistable a'"
      using a' same p by (simp add: is_persistable_def)
    then have r: "repo' = add repo a'"
      using repo' by simp
    show "recorded_events a' = recorded_events a @ [e]
           \<and> dd_get (repo_new_aggregate_events repo') (pk a') = recorded_events a'
           \<and> repo_events repo' = repo_events repo @ [e]"
      unfolding r using add_buffers [of repo a'] buf rec by simp
  qed
  from add_buffers [of repo a] other t1 t2 t3 pre step show ?thesis by blast
qed

theorem add_appends_unbuffered_suffix_witness:
  "dd_get (repo_new_aggregate_events
             (add example_repository (example_unsaved\<lparr>recorded_events := take 3 example_history\<rparr>)))
          ''A''
     = take 3 example_history
   \<and> repo_events (add example_repository (example_unsaved\<lparr>recorded_events := take 3 example_history\<rparr>))
     = take 1 example_history @ drop 1 (take 3 example_history)
   \<and> dd_get (repo_new_aggregate_events
             (add example_repository (example_unsaved\<lparr>recorded_events := take 3 example_history\<rparr>)))
          ''B''
     = []"
proof -
  let ?a = "example_unsaved\<lparr>recorded_events := take 3 example_history\<rparr>"
  have key: "pk ?a = ''A''"
    by (simp add: example_unsaved_def)
  have old: "dd_get (repo_new_aggregate_events example_repository) ''A'' = take 1 example_history"
    by (simp add: example_repository_def dd_get_def)
  have other: "dd_get (repo_new_aggregate_events example_repository) ''B'' = []"
    by (simp add: example_repository_def dd_get_def)
  have prefix: "dd_get (repo_new_aggregate_events example_repository) (pk ?a)
        = take (length (dd_get (repo_new_aggregate_events example_repository) (pk ?a)))
            (recorded_events ?a)"
    by (simp add: eval_defs dd_get_def)
  have differ: "''B'' \<noteq> pk ?a"
    by (simp add: key)
  note t = add_appends_unbuffered_suffix [of example_repository ?a]
  from t prefix have "dd_get (repo_new_aggregate_events (add example_repository ?a)) (pk ?a)
      = recorded_events ?a"
    by blast
  then have c1: "dd_get (repo_new_aggregate_events (add example_repository ?a)) ''A''
      = take 3 example_history"
    by (simp add: key)
  from t have "repo_events (add example_repository ?a)
      = repo_events example_repository
        @ drop (length (dd_get (repo_new_aggregate_events example_repository) (pk ?a)))
            (recorded_events ?a)"
    by blast
  then have c2: "repo_events (add example_repository ?a)
      = take 1 example_history @ drop 1 (take 3 example_history)"
    by (simp add: key old) (simp add: example_repository_def example_history_def)
  from t differ have "dd_get (repo_new_aggregate_events (add example_repository ?a)) ''B''
      = dd_get (repo_new_aggregate_events example_repository) ''B''"
    by blast
  then have c3: "dd_get (repo_new_aggregate_events (add example_repository ?a)) ''B'' = []"
    by (simp add: other)
  from c1 c2 c3 show ?thesis by blast
qed

lemma persist_example_unsaved:
  "persist [] example_unsaved
     = Inr (example_unsaved\<lparr>version := Some 1, adding := False\<rparr>,
            [\<lparr>db_id = ''A'', db_version = 1, db_code = ''CC-REC-1'', db_volume = 0,
              db_deleted_at = None\<rparr>])"
  by (simp add: persist_def eval_defs)

text \<open>
  Claim C9 as stated (no recorded event is ever buffered twice) fails for an instance that
  outlives the unit of work it was changed in: \<^verbatim>\<open>persist\<close> ends with \<^verbatim>\<open>clear\<close>, which
  empties the buffers, and nothing empties \<^verbatim>\<open>_recorded_events\<close>.  The lot that
  \<^verbatim>\<open>WineLot.create\<close> returns has its creation event buffered; after it is persisted and
  the repository is cleared, an \<^verbatim>\<open>add\<close> of the same instance buffers the creation event
  again, for the event store as well, and so does the \<^verbatim>\<open>apply\<close> of its next event.
\<close>

theorem add_after_clear_counterexample:
  "create exact [] clear ''A'' ''CC-REC-1'' (Composition [(vintage_2022, 1)])
     = Inr (example_unsaved, example_repository)
   \<and> repo_events example_repository = take 1 example_history
   \<and> persist [] example_unsaved
     = Inr (example_unsaved\<lparr>version := Some 1, adding := False\<rparr>,
            [\<lparr>db_id = ''A'', db_version = 1, db_code = ''CC-REC-1'', db_volume = 0,
              db_deleted_at = None\<rparr>])
   \<and> repo_events (add clear (example_unsaved\<lparr>version := Some 1, adding := False\<rparr>))
     = take 1 example_history
   \<and> dd_get (repo_event_stores (add clear (example_unsaved\<lparr>version := Some 1, adding := False\<rparr>)))
        WineLotEventStore
     = take 1 example_history
   \<and> (case apply_to exact [] clear (example_unsaved\<lparr>version := Some 1, adding := False\<rparr>)
              (example_history ! 2) of
         Inl err \<Rightarrow> []
       | Inr (lot, repo) \<Rightarrow> repo_events repo)
     = [example_history ! 0, example_history ! 2]"
  using create_example persist_example_unsaved
  by (simp add: eval_defs add_def dd_get_def dd_extend_def clear_def get_event_model_def
      apply_to_def is_persistable_def)

text \<open>
  For an aggregate whose buffer holds all its recorded events, \<^verbatim>\<open>apply\<close> of an event that
  keeps the primary key buffers that event and nothing else: the buffer is again the
  list of recorded events.
\<close>

lemma apply_to_keeps_buffer_in_step:
  assumes "apply_to rnd uuid repo a e = Inr (a', repo')" and "persistable a" and "pk a' = pk a"
    and "dd_get (repo_new_aggregate_events repo) (pk a) = recorded_events a"
  shows "dd_get (repo_new_aggregate_events repo') (pk a') = recorded_events a'
     \<and> recorded_events a' = recorded_events a @ [e]
     \<and> repo_events repo' = repo_events repo @ [e]"
proof -
  from assms(1) obtain l where l: "load rnd uuid a e = Inr l"
    and a': "a' = l\<lparr>recorded_events := recorded_events l @ [e]\<rparr>"
    and repo': "repo' = (if is_persistable a' then add repo a' else repo)"
    by (auto simp: apply_to_def Let_def split: sum.splits)
  have same: "recorded_events l = recorded_events a \<and> persistable l = persistable a"
    using l by (cases e) (auto simp: load_def split: option.splits if_splits)
  have rec: "recorded_events a' = recorded_events a @ [e]"
    using a' same by simp
  have "is_persistable a'"
    using a' same assms(2) by (simp add: is_persistable_def)
  then have r: "repo' = add repo a'"
    using repo' by simp
  show ?thesis
    unfolding r using add_buffers [of repo a'] assms(3) assms(4) rec by simp
qed

section \<open>The creation event\<close>

lemma create_result:
  assumes "create rnd uuid repo next_id c initial = Inr (lot, repo')"
  shows "recorded_events lot =
           [WineLotCreated next_id creation_time c
              (map (\<lambda>(component, percent). ComponentAmount component percent) (components initial))]"
    and "pk lot = next_id" and "code lot = c" and "validate_code c = None"
  using assms
  by (auto simp: create_def apply_to_def load_def new_WineLot_def Let_def split: option.splits)

text \<open>
  Claim C10 as the code has it.  The event that \<^verbatim>\<open>WineLot.create\<close> records is a
  \<^verbatim>\<open>WineLotCreated\<close> whose \<^verbatim>\<open>occurred_at\<close> is 1970-01-01T00:00:00; it is stored with that
  timestamp and no sequence number.  The stored row is inside every window of the
  replay functions and of the projection whose cutoff is later than that instant, inside
  the projection's window without a cutoff, and it precedes in the canonical order every
  row that occurred later than that instant.
\<close>

theorem creation_event_at_epoch:
  assumes "create rnd uuid repo next_id c initial = Inr (lot, repo')"
  shows "\<exists>cs. recorded_events lot = [WineLotCreated next_id creation_time c cs]
     \<and> store now n (recorded_events lot) =
          [\<lparr>row_id = n, aggregate_id = next_id,
            event_data = WineLotCreated next_id creation_time c cs,
            occurred_at = creation_time, sequence_number = None\<rparr>]
     \<and> (\<forall>row \<in> set (store now n (recorded_events lot)).
          (\<forall>t. creation_time < t \<longrightarrow>
             (\<forall>action_id s sn.
                relevant_events_filter (Some t) action_id row
                \<and> events_after_and_including_filter t s row
                \<and> events_before_or_including_filter t row
                \<and> events_before_filter t sn row))
          \<and> relevant_events_filter None None row
          \<and> (\<forall>r. creation_time < occurred_at r \<longrightarrow> canonical_key row < canonical_key r))"
proof -
  let ?cs = "map (\<lambda>(component, percent). ComponentAmount component percent) (components initial)"
  have rec: "recorded_events lot = [WineLotCreated next_id creation_time c ?cs]"
    using create_result(1) [OF assms] .
  have st: "store now n (recorded_events lot) =
          [\<lparr>row_id = n, aggregate_id = next_id,
            event_data = WineLotCreated next_id creation_time c ?cs,
            occurred_at = creation_time, sequence_number = None\<rparr>]"
    by (simp add: rec)
  have win: "\<forall>row \<in> set (store now n (recorded_events lot)).
          (\<forall>t. creation_time < t \<longrightarrow>
             (\<forall>action_id s sn.
                relevant_events_filter (Some t) action_id row
                \<and> events_after_and_including_filter t s row
                \<and> events_before_or_including_filter t row
                \<and> events_before_filter t sn row))
          \<and> relevant_events_filter None None row
          \<and> (\<forall>r. creation_time < occurred_at r \<longrightarrow> canonical_key row < canonical_key r)"
    unfolding st
    by (auto simp: relevant_events_filter_def events_after_and_including_filter_def
        events_before_or_including_filter_def events_before_filter_def canonical_key_def
        split: option.splits)
  from rec st win show ?thesis by blast
qed

theorem creation_event_at_epoch_witness:
  "create exact [] clear ''A'' ''CC-REC-1'' (Composition [(vintage_2022, 1)])
     = Inr (example_unsaved, example_repository)
   \<and> store 0 1 (recorded_events example_unsaved) = [example_creation_row]
   \<and> relevant_events_filter (Some 20000000) (Some ''X3'') example_creation_row
   \<and> events_after_and_including_filter 20000000 ''X3'' example_creation_row
   \<and> canonical_key example_creation_row < canonical_key (example_events ! 2)"
proof -
  have st: "store 0 1 (recorded_events example_unsaved) = [example_creation_row]"
    by (simp add: eval_defs)
  have later: "creation_time < 20000000" "creation_time < occurred_at (example_events ! 2)"
    by (simp_all add: eval_defs)
  from creation_event_at_epoch [OF create_example, of 0 1] later
  show ?thesis
    unfolding st using create_example by auto
qed

text \<open>
  Claim C10 as stated (the creation event precedes all other events and is included in
  every temporal cutoff window) fails for a cutoff or an event before 1970: the window
  that ends one second before 1970 leaves the creation row of lot \<open>A\<close> out, and a volume
  received at that second is ordered before the creation row.
\<close>

theorem creation_event_counterexample:
  "create exact [] clear ''A'' ''CC-REC-1'' (Composition [(vintage_2022, 1)])
     = Inr (example_unsaved, example_repository)
   \<and> store 0 1 (recorded_events example_unsaved) = [example_creation_row]
   \<and> \<not> relevant_events_filter (Some (- 1000000)) None example_creation_row
   \<and> \<not> events_after_and_including_filter (- 1000000) ''X0'' example_creation_row
   \<and> store 0 7 [VolumeReceived ''A'' ''X0'' (- 1000000) 5] = [early_row]
   \<and> canonical_key early_row < canonical_key example_creation_row"
  using create_example
  by (simp add: eval_defs events_after_and_including_filter_def)

section \<open>Replaying a history\<close>

lemma load_replay_step:
  assumes "volume s2 = volume s1" and "deleted_at s2 = deleted_at s1"
    and "load rnd u1 s1 e = Inr s1'"
  shows "\<exists>s2'. load rnd u2 s2 e = Inr s2' \<and> volume s2' = volume s1' \<and> deleted_at s2' = deleted_at s1'
           \<and> version s2' = version s2
           \<and> (if event_type e = CREATED then pk s2' = pk s1' else pk s2' = pk s2 \<and> pk s1' = pk s1)
           \<and> (code s2 = code s1 \<and> (event_type e \<noteq> DELETED \<or> u2 = u1) \<longrightarrow> code s2' = code s1')"
  using assms by (cases e) (auto simp: load_def split: if_splits)

lemma load_all_replay:
  "load_all rnd a1 h1 = Inr s1 \<Longrightarrow> map snd h2 = map snd h1 \<Longrightarrow> volume a2 = volume a1 \<Longrightarrow>
   deleted_at a2 = deleted_at a1 \<Longrightarrow>
     \<exists>s2. load_all rnd a2 h2 = Inr s2 \<and> volume s2 = volume s1 \<and> deleted_at s2 = deleted_at s1
          \<and> version s2 = version a2
          \<and> (if list_ex (\<lambda>e. event_type e = CREATED) (map snd h1) then pk s2 = pk s1
              else pk s2 = pk a2 \<and> pk s1 = pk a1)
          \<and> (code a2 = code a1 \<and> (list_all (\<lambda>e. event_type e \<noteq> DELETED) (map snd h1) \<or> h2 = h1)
               \<longrightarrow> code s2 = code s1)"
proof (induction h1 arbitrary: h2 a1 a2)
  case Nil
  then show ?case by simp
next
  case (Cons x h1)
  obtain u1 e where x: "x = (u1, e)" by (cases x)
  from Cons.prems(2) x obtain u2 h2' where h2: "h2 = (u2, e) # h2'" and tl: "map snd h2' = map snd h1"
    by (cases h2) auto
  from Cons.prems(1) x obtain a1' where l1: "load rnd u1 a1 e = Inr a1'"
    and r1: "load_all rnd a1' h1 = Inr s1"
    by (auto split: sum.splits)
  from load_replay_step [OF Cons.prems(3) Cons.prems(4) l1, of u2]
  obtain a2' where l2: "load rnd u2 a2 e = Inr a2'"
    and v: "volume a2' = volume a1'" and d: "deleted_at a2' = deleted_at a1'"
    and ver: "version a2' = version a2"
    and p: "if event_type e = CREATED then pk a2' = pk a1' else pk a2' = pk a2 \<and> pk a1' = pk a1"
    and c: "code a2 = code a1 \<and> (event_type e \<noteq> DELETED \<or> u2 = u1) \<longrightarrow> code a2' = code a1'"
    by blast
  from Cons.IH [OF r1 tl v d]
  obtain s2 where r2: "load_all rnd a2' h2' = Inr s2"
    and v': "volume s2 = volume s1" and d': "deleted_at s2 = deleted_at s1"
    and ver': "version s2 = version a2'"
    and p': "if list_ex (\<lambda>e. event_type e = CREATED) (map snd h1) then pk s2 = pk s1
              else pk s2 = pk a2' \<and> pk s1 = pk a1'"
    and c': "code a2' = code a1' \<and> (list_all (\<lambda>e. event_type e \<noteq> DELETED) (map snd h1) \<or> h2' = h1)
               \<longrightarrow> code s2 = code s1"
    by blast
  have run: "load_all rnd a2 h2 = Inr s2" using l2 r2 h2 by simp
  have pk_ok: "if list_ex (\<lambda>e. event_type e = CREATED) (map snd (x # h1)) then pk s2 = pk s1
              else pk s2 = pk a2 \<and> pk s1 = pk a1"
    using p p' x by (auto split: if_splits)
  have code_ok: "code a2 = code a1
                 \<and> (list_all (\<lambda>e. event_type e \<noteq> DELETED) (map snd (x # h1)) \<or> h2 = x # h1)
               \<longrightarrow> code s2 = code s1"
    using c c' x h2 by auto
  from run v' d' ver' ver pk_ok code_ok show ?case by auto
qed

text \<open>
  Claim C1 as the code has it.  \<open>h1\<close> is the history of a wine lot as it was first
  applied, every event paired with the string \<^verbatim>\<open>uuid4\<close> returned then, and \<open>s1\<close> the
  state it produced, persisted at version \<open>v\<close>.  Folding the same events onto the identity
  of the persisted row, with whatever \<^verbatim>\<open>uuid4\<close> returns now (\<open>h2\<close>), succeeds and yields
  the same id, the row's version, the same volume and the same \<^verbatim>\<open>deleted_at\<close>; it
  yields the same code when the history has no \<^verbatim>\<open>WineLotDeleted\<close> event, or when
  \<^verbatim>\<open>uuid4\<close> returns the same strings as before.
\<close>

theorem replay_equivalence:
  assumes "load_all rnd new_WineLot h1 = Inr s1" and "map snd h2 = map snd h1"
  shows "\<exists>s2. load_all rnd (identity (s1\<lparr>version := v\<rparr>)) h2 = Inr s2
           \<and> pk s2 = pk s1 \<and> version s2 = v \<and> volume s2 = volume s1 \<and> deleted_at s2 = deleted_at s1
           \<and> (list_all (\<lambda>e. event_type e \<noteq> DELETED) (map snd h1) \<or> h2 = h1 \<longrightarrow> code s2 = code s1)"
proof -
  let ?a2 = "identity (s1\<lparr>version := v\<rparr>)"
  have v0: "volume ?a2 = volume new_WineLot" and d0: "deleted_at ?a2 = deleted_at new_WineLot"
    and c0: "code ?a2 = code new_WineLot" and p0: "pk ?a2 = pk s1" and ver0: "version ?a2 = v"
    by (simp_all add: identity_def new_WineLot_def)
  from load_all_replay [OF assms(1) assms(2) v0 d0]
  obtain s2 where r: "load_all rnd ?a2 h2 = Inr s2"
    and v': "volume s2 = volume s1" and d': "deleted_at s2 = deleted_at s1"
    and ver': "version s2 = version ?a2"
    and p': "if list_ex (\<lambda>e. event_type e = CREATED) (map snd h1) then pk s2 = pk s1
              else pk s2 = pk ?a2 \<and> pk s1 = pk new_WineLot"
    and c': "code ?a2 = code new_WineLot
             \<and> (list_all (\<lambda>e. event_type e \<noteq> DELETED) (map snd h1) \<or> h2 = h1)
               \<longrightarrow> code s2 = code s1"
    by blast
  have "pk s2 = pk s1" using p' p0 by (auto split: if_splits)
  with r v' d' ver' ver0 c' c0 show ?thesis by auto
qed

theorem replay_equivalence_witness:
  "load_all exact new_WineLot
     (map (Pair ''aa'') [example_history ! 0, example_history ! 2, deleted_history ! 1])
     = Inr (new_WineLot\<lparr>pk := ''A'', code := ''CC-REC-1!aa'', volume := 5,
                         deleted_at := Some 5000000\<rparr>)
   \<and> (\<exists>s2. load_all exact
              (identity (new_WineLot\<lparr>pk := ''A'', code := ''CC-REC-1!aa'', volume := 5,
                                     deleted_at := Some 5000000, version := Some 1\<rparr>))
              (map (Pair ''bb'') [example_history ! 0, example_history ! 2, deleted_history ! 1])
              = Inr s2
           \<and> pk s2 = ''A'' \<and> version s2 = Some 1 \<and> volume s2 = 5
           \<and> deleted_at s2 = Some 5000000)"
proof -
  let ?h = "[example_history ! 0, example_history ! 2, deleted_history ! 1]"
  let ?s1 = "new_WineLot\<lparr>pk := ''A'', code := ''CC-REC-1!aa'', volume := 5,
                         deleted_at := Some 5000000\<rparr>"
  have first: "load_all exact new_WineLot (map (Pair ''aa'') ?h) = Inr ?s1"
    by (simp add: eval_defs)
  have same: "map snd (map (Pair ''bb'') ?h) = map snd (map (Pair ''aa'') ?h)"
    by simp
  have fields: "pk ?s1 = ''A''" "volume ?s1 = 5" "deleted_at ?s1 = Some 5000000"
    by simp_all
  from replay_equivalence [OF first same, of "Some 1"]
  obtain s2 where "load_all exact (identity (?s1\<lparr>version := Some 1\<rparr>)) (map (Pair ''bb'') ?h) = Inr s2"
    and "pk s2 = pk ?s1" and "version s2 = Some 1" and "volume s2 = volume ?s1"
    and "deleted_at s2 = deleted_at ?s1"
    by blast
  with fields first show ?thesis
    by metis
qed

text \<open>
  Claim C1 as stated (re-folding the history of a deleted wine lot yields the same code)
  fails: \<^verbatim>\<open>apply_wine_lot_deleted\<close> appends what \<^verbatim>\<open>uuid4\<close> returns at the time.  The lot
  that was created with code \<open>LOT\<close> and deleted while \<^verbatim>\<open>uuid4\<close> returned \<open>aa\<close> has the code
  \<open>LOT!aa\<close>, in memory and in its persisted row; the fold of the same two events onto the
  identity of that row while \<^verbatim>\<open>uuid4\<close> returns \<open>bb\<close> has the code \<open>LOT!bb\<close>.
\<close>

theorem replay_changes_code_counterexample:
  "load_all exact new_WineLot (map (Pair ''aa'') deleted_history)
     = Inr (new_WineLot\<lparr>pk := ''A'', code := ''LOT!aa'', deleted_at := Some 5000000\<rparr>)
   \<and> load_all exact
        (identity (new_WineLot\<lparr>pk := ''A'', code := ''LOT!aa'', deleted_at := Some 5000000,
                               version := Some 1\<rparr>))
        (map (Pair ''bb'') deleted_history)
     = Inr (new_WineLot\<lparr>pk := ''A'', version := Some 1, code := ''LOT!bb'',
                         deleted_at := Some 5000000, adding := False\<rparr>)"
  by (simp add: eval_defs identity_def)

section \<open>Commit and notification order of a unit of work\<close>

lemma dispatch_trace:
  "dispatch handle ss e tr = (r, tr') \<Longrightarrow>
     \<exists>p. tr' = tr @ p \<and> p = take (length p) (map (\<lambda>s. Invoked s e) ss)
        \<and> (r = None \<longrightarrow> p = map (\<lambda>s. Invoked s e) ss)
        \<and> (r \<noteq> None \<longrightarrow> p \<noteq> [])"
proof (induction ss arbitrary: tr)
  case Nil
  then show ?case by auto
next
  case (Cons s ss)
  show ?case
  proof (cases "handle s e")
    case True
    with Cons.prems have "dispatch handle ss e (tr @ [Invoked s e]) = (r, tr')" by simp
    from Cons.IH [OF this] obtain p where p: "tr' = (tr @ [Invoked s e]) @ p"
      "p = take (length p) (map (\<lambda>s. Invoked s e) ss)"
      "r = None \<longrightarrow> p = map (\<lambda>s. Invoked s e) ss" "r \<noteq> None \<longrightarrow> p \<noteq> []"
      by blast
    show ?thesis
    proof (intro exI conjI)
      show "tr' = tr @ (Invoked s e # p)" using p(1) by simp
      show "Invoked s e # p = take (length (Invoked s e # p)) (map (\<lambda>s. Invoked s e) (s # ss))"
        using p(2) by simp
      show "r = None \<longrightarrow> Invoked s e # p = map (\<lambda>s. Invoked s e) (s # ss)" using p(3) by simp
      show "r \<noteq> None \<longrightarrow> Invoked s e # p \<noteq> []" by simp
    qed
  next
    case False
    with Cons.prems have "r = Some SubscriberError" "tr' = tr @ [Invoked s e]" by simp_all
    then show ?thesis by (intro exI [of _ "[Invoked s e]"]) simp
  qed
qed

lemma prefix_take_length: "p = take (length p) ys \<Longrightarrow> length p \<le> length ys"
proof -
  assume a: "p = take (length p) ys"
  have "length p = length (take (length p) ys)"
    by (rule arg_cong [where f = length, OF a])
  then show ?thesis by simp
qed

lemma prefix_append_right: "p = take (length p) xs \<Longrightarrow> p = take (length p) (xs @ ys)"
  using prefix_take_length [of p xs] by simp

lemma take_append_prefix:
  "p = take (length p) ys \<Longrightarrow> xs @ p = take (length (xs @ p)) (xs @ ys)"
  by simp

lemma dispatch_all_trace:
  "dispatch_all handle subscribers es tr = (r, tr') \<Longrightarrow>
     \<exists>p. tr' = tr @ p \<and> p = take (length p) (invocations subscribers es)
        \<and> (r = None \<longrightarrow> p = invocations subscribers es)
        \<and> (r \<noteq> None \<longrightarrow> p \<noteq> [])"
proof (induction es arbitrary: tr)
  case Nil
  then show ?case by (auto simp: invocations_def)
next
  case (Cons e es)
  obtain r1 tr1 where d: "dispatch handle (subscribers e) e tr = (r1, tr1)"
    by (cases "dispatch handle (subscribers e) e tr") auto
  from dispatch_trace [OF d] obtain p1 where p1: "tr1 = tr @ p1"
    "p1 = take (length p1) (map (\<lambda>s. Invoked s e) (subscribers e))"
    "r1 = None \<longrightarrow> p1 = map (\<lambda>s. Invoked s e) (subscribers e)" "r1 \<noteq> None \<longrightarrow> p1 \<noteq> []"
    by blast
  have inv: "invocations subscribers (e # es)
             = map (\<lambda>s. Invoked s e) (subscribers e) @ invocations subscribers es"
    by (simp add: invocations_def)
  show ?case
  proof (cases r1)
    case None
    with Cons.prems d have "dispatch_all handle subscribers es tr1 = (r, tr')" by simp
    from Cons.IH [OF this] obtain p where p: "tr' = tr1 @ p"
      "p = take (length p) (invocations subscribers es)"
      "r = None \<longrightarrow> p = invocations subscribers es" "r \<noteq> None \<longrightarrow> p \<noteq> []"
      by blast
    from None p1 have full: "p1 = map (\<lambda>s. Invoked s e) (subscribers e)" by simp
    show ?thesis
    proof (intro exI conjI)
      show "tr' = tr @ (p1 @ p)" using p(1) p1(1) by simp
      show "p1 @ p = take (length (p1 @ p)) (invocations subscribers (e # es))"
        unfolding inv full using take_append_prefix [OF p(2)] by (simp add: full)
      show "r = None \<longrightarrow> p1 @ p = invocations subscribers (e # es)"
        using p(3) full inv by simp
      show "r \<noteq> None \<longrightarrow> p1 @ p \<noteq> []" using p(4) by simp
    qed
  next
    case (Some err)
    with Cons.prems d have r: "r = Some err" "tr' = tr1" by simp_all
    from Some p1 have ne: "p1 \<noteq> []" by simp
    have "p1 = take (length p1) (invocations subscribers (e # es))"
      unfolding inv using p1(2) by (rule prefix_append_right)
    with r p1(1) ne show ?thesis by (intro exI [of _ p1]) simp
  qed
qed

lemma list_all_invocations: "list_all is_invocation (invocations subscribers es)"
  by (induction es) (auto simp: invocations_def list_all_iff)

lemma list_all_take: "list_all P xs \<Longrightarrow> list_all P (take n xs)"
  by (auto simp: list_all_iff dest: in_set_takeD)

lemma repository_persist_cases:
  assumes "repository_persist handle subscribers now objects repo db = (r, trace)"
  shows "(\<forall>err. persist_aggregates objects (map fst (repo_new_aggregate_events repo)) (wine_lots db)
              = Inl err \<longrightarrow> r = Inl err \<and> trace = [])
       \<and> (\<forall>db'. r = Inr db' \<longrightarrow> trace = invocations subscribers (repo_events repo))
       \<and> ((\<exists>table. persist_aggregates objects (map fst (repo_new_aggregate_events repo))
                      (wine_lots db) = Inr table)
           \<and> (\<exists>err. r = Inl err) \<longrightarrow>
              trace \<noteq> [] \<and> trace = take (length trace) (invocations subscribers (repo_events repo)))"
proof (cases "persist_aggregates objects (map fst (repo_new_aggregate_events repo)) (wine_lots db)")
  case (Inl err)
  with assms show ?thesis by (auto simp: repository_persist_def)
next
  case (Inr table)
  obtain r1 tr1 where d: "dispatch_all handle subscribers (repo_events repo) [] = (r1, tr1)"
    by (cases "dispatch_all handle subscribers (repo_events repo) []") auto
  from dispatch_all_trace [OF d] have p: "tr1 = take (length tr1) (invocations subscribers (repo_events repo))"
    "r1 = None \<longrightarrow> tr1 = invocations subscribers (repo_events repo)" "r1 \<noteq> None \<longrightarrow> tr1 \<noteq> []"
    by auto
  show ?thesis
  proof (cases r1)
    case None
    with assms Inr d have "trace = tr1" "\<exists>db'. r = Inr db'"
      by (auto simp: repository_persist_def Let_def)
    with p None Inr show ?thesis by auto
  next
    case (Some err)
    with assms Inr d have "trace = tr1" "r = Inl err"
      by (auto simp: repository_persist_def Let_def)
    with p Some Inr show ?thesis by auto
  qed
qed

text \<open>
  Claim C2 as the code has it.  A unit of work leaves the repository cleared.  When it
  returns, what was observed is every invocation of every subscriber for the buffered
  events, in order, and then the commit: the notifications are dispatched inside the
  transaction, after the aggregates, the events and the deletions were written and
  before the commit.  When it raises, the database is as it was before and what was
  observed ends with the rollback.  When the wrapped function raises, or persisting an
  aggregate raises, no subscriber was invoked.  When a subscriber raises, the invocations
  up to and including that one were made.
\<close>

theorem unit_of_work_outcomes:
  assumes "store_aggregate_changes handle subscribers now f db = (result, db', repo', trace)"
  shows "repo' = clear
     \<and> (\<forall>response. result = Inr response \<longrightarrow>
          (\<exists>repo objects. f db = Inr (response, repo, objects)
             \<and> trace = invocations subscribers (repo_events repo) @ [Committed]))
     \<and> (\<forall>err. result = Inl err \<longrightarrow>
          db' = db \<and> (\<exists>p. trace = p @ [RolledBack] \<and> list_all is_invocation p))
     \<and> (\<forall>err. f db = Inl err \<longrightarrow> result = Inl err \<and> trace = [RolledBack])
     \<and> (\<forall>response repo objects err.
          f db = Inr (response, repo, objects)
          \<and> persist_aggregates objects (map fst (repo_new_aggregate_events repo)) (wine_lots db)
              = Inl err \<longrightarrow>
          result = Inl err \<and> trace = [RolledBack])
     \<and> (\<forall>response repo objects table err.
          f db = Inr (response, repo, objects)
          \<and> persist_aggregates objects (map fst (repo_new_aggregate_events repo)) (wine_lots db)
              = Inr table
          \<and> result = Inl err \<longrightarrow>
          (\<exists>p. trace = p @ [RolledBack] \<and> p \<noteq> []
              \<and> p = take (length p) (invocations subscribers (repo_events repo))))"
proof (cases "f db")
  case (Inl err)
  with assms show ?thesis by (auto simp: store_aggregate_changes_def)
next
  case (Inr x)
  obtain response repo objects where x: "x = (response, repo, objects)" by (cases x)
  obtain r tr where rp: "repository_persist handle subscribers now objects repo db = (r, tr)"
    by (cases "repository_persist handle subscribers now objects repo db") auto
  note c = repository_persist_cases [OF rp]
  show ?thesis
  proof (cases r)
    case (Inl err)
    with assms Inr x rp have res: "result = Inl err" "db' = db" "repo' = clear" "trace = tr @ [RolledBack]"
      by (simp_all add: store_aggregate_changes_def)
    have inv: "list_all is_invocation tr"
    proof (cases "persist_aggregates objects (map fst (repo_new_aggregate_events repo)) (wine_lots db)")
      case (Inl e)
      with c show ?thesis by simp
    next
      case (Inr table)
      with c Inl have "tr = take (length tr) (invocations subscribers (repo_events repo))" by blast
      then show ?thesis
        using list_all_take [OF list_all_invocations, of "length tr" subscribers "repo_events repo"]
        by simp
    qed
    from res inv c Inl Inr x show ?thesis by auto
  next
    case (Inr d)
    with assms \<open>f db = Inr x\<close> x rp have res: "result = Inr response" "db' = d" "repo' = clear"
      "trace = tr @ [Committed]"
      by (simp_all add: store_aggregate_changes_def)
    from c Inr have "tr = invocations subscribers (repo_events repo)" by blast
    with res \<open>f db = Inr x\<close> x c Inr show ?thesis by auto
  qed
qed

lemma create_lot_a_example:
  "create_lot_a db = Inr (example_unsaved, example_repository, \<lambda>k. example_unsaved)"
  by (simp add: create_lot_a_def create_example)

lemma accepted_example:
  "store_aggregate_changes accepting one_subscriber 0 create_lot_a empty_db
     = (Inr example_unsaved, created_db, clear,
        [Invoked ''Projector'' (example_history ! 0), Committed])"
  by (simp add: store_aggregate_changes_def create_lot_a_example repository_persist_def
      persist_def insert_row_def eval_defs)

lemma refused_example:
  "store_aggregate_changes refusing one_subscriber 0 create_lot_a empty_db
     = (Inl SubscriberError, empty_db, clear,
        [Invoked ''Projector'' (example_history ! 0), RolledBack])"
  by (simp add: store_aggregate_changes_def create_lot_a_example repository_persist_def
      persist_def insert_row_def eval_defs)

lemma stale_example:
  "store_aggregate_changes accepting one_subscriber 0 stale_update example_db
     = (Inl OutOfDateVersionException, example_db, clear, [RolledBack])"
  by (simp add: store_aggregate_changes_def stale_update_def repository_persist_def
      persist_def clear_def eval_defs)

theorem unit_of_work_outcomes_witness:
  "store_aggregate_changes accepting one_subscriber 0 create_lot_a empty_db
     = (Inr example_unsaved, created_db, clear,
        invocations one_subscriber (repo_events example_repository) @ [Committed])
   \<and> store_aggregate_changes refusing one_subscriber 0 create_lot_a empty_db
     = (Inl SubscriberError, empty_db, clear,
        take 1 (invocations one_subscriber (repo_events example_repository)) @ [RolledBack])
   \<and> store_aggregate_changes accepting one_subscriber 0 stale_update example_db
     = (Inl OutOfDateVersionException, example_db, clear, [RolledBack])"
proof -
  from unit_of_work_outcomes [OF accepted_example]
  obtain repo objects where "create_lot_a empty_db = Inr (example_unsaved, repo, objects)"
    and "[Invoked ''Projector'' (example_history ! 0), Committed]
         = invocations one_subscriber (repo_events repo) @ [Committed]"
    by blast
  then have c1: "[Invoked ''Projector'' (example_history ! 0), Committed]
         = invocations one_subscriber (repo_events example_repository) @ [Committed]"
    by (simp add: create_lot_a_example)
  have c2: "[Invoked ''Projector'' (example_history ! 0), RolledBack]
         = take 1 (invocations one_subscriber (repo_events example_repository)) @ [RolledBack]"
    using c1 by (simp add: invocations_def example_repository_def example_history_def
        one_subscriber_def)
  from accepted_example refused_example stale_example c1 c2 show ?thesis by simp
qed

text \<open>
  Claim C2 as stated (the notifications are dispatched only after the transaction has
  committed, and a failure at any step of \<^verbatim>\<open>persist\<close> leaves zero notifications) fails.
  In the unit of work that creates lot \<open>A\<close>, the subscriber is invoked with the creation
  event before the commit; and when the subscriber raises, which is a failure of the
  fourth step of \<^verbatim>\<open>persist\<close>, the transaction is rolled back and no row has changed, but
  the subscriber has been invoked.
\<close>

theorem dispatch_before_commit_counterexample:
  "store_aggregate_changes accepting one_subscriber 0 create_lot_a empty_db
     = (Inr example_unsaved, created_db, clear,
        [Invoked ''Projector'' (example_history ! 0), Committed])
   \<and> store_aggregate_changes refusing one_subscriber 0 create_lot_a empty_db
     = (Inl SubscriberError, empty_db, clear,
        [Invoked ''Projector'' (example_history ! 0), RolledBack])"
  using accepted_example refused_example by simp

section \<open>The steps of the composition fold\<close>

lemma composition_step_blended:
  assumes "composition_step rnd uuid (lcs, lots) event = Inr (lcs', lots')"
    and "event_type (event_data event) = VOLUME_BLENDED"
  shows "\<exists>lot existing c0. map_of lots (aggregate_id event) = Some lot
      \<and> map_of lcs (aggregate_id event) = Some existing
      \<and> blend_composition rnd (volume lot) existing lcs (event_volumes (event_data event)) = Inr c0
      \<and> lcs' = AList.update (aggregate_id event) c0 lcs"
proof -
  from assms obtain lot where lot: "map_of lots (aggregate_id event) = Some lot"
    by (cases "map_of lots (aggregate_id event)") (auto simp: composition_step_def)
  from assms lot obtain existing where ex: "map_of lcs (aggregate_id event) = Some existing"
    by (cases "map_of lcs (aggregate_id event)") (auto simp: composition_step_def)
  from assms lot ex obtain c0 where
    c0: "blend_composition rnd (volume lot) existing lcs (event_volumes (event_data event)) = Inr c0"
    by (cases "blend_composition rnd (volume lot) existing lcs (event_volumes (event_data event))")
       (auto simp: composition_step_def)
  from assms lot ex c0 have "lcs' = AList.update (aggregate_id event) c0 lcs"
    by (auto simp: composition_step_def split: sum.splits)
  with lot ex c0 show ?thesis by blast
qed

lemma composition_step_other:
  assumes "composition_step rnd uuid (lcs, lots) event = Inr (lcs', lots')"
    and "event_type (event_data event) \<noteq> CREATED"
    and "event_type (event_data event) \<noteq> VOLUME_BLENDED"
  shows "lcs' = lcs"
  using assms by (auto simp: composition_step_def split: sum.splits option.splits)

lemma composition_step_created:
  assumes "composition_step rnd uuid (lcs, lots) event = Inr (lcs', lots')"
    and "event_type (event_data event) = CREATED"
  shows "\<exists>c0. created_composition rnd (event_components (event_data event)) = Inr c0
      \<and> lcs' = AList.update (aggregate_id event) c0 lcs"
  using assms by (auto simp: composition_step_def split: sum.splits)

section \<open>Every composition is within the tolerance\<close>

lemma new_Composition_valid:
  "new_Composition rnd cs = Inr c \<Longrightarrow> within_tolerance rnd c"
  by (auto simp: new_Composition_def validate_percentages_def within_tolerance_def split: if_splits)

lemma blend_composition_valid:
  "blend_composition rnd v existing lcs volumes = Inr c \<Longrightarrow> within_tolerance rnd c"
  by (auto simp: blend_composition_def Let_def new_Composition_valid split: sum.splits)

lemma composition_step_valid:
  assumes "composition_step rnd uuid (lcs, lots) event = Inr (lcs', lots')"
    and inv: "\<And>l c. map_of lcs l = Some c \<Longrightarrow> within_tolerance rnd c"
    and "map_of lcs' l = Some c"
  shows "within_tolerance rnd c"
proof (cases "event_type (event_data event) = CREATED")
  case True
  from composition_step_created [OF assms(1) True] obtain c0 where
    c0: "created_composition rnd (event_components (event_data event)) = Inr c0"
    and lcs': "lcs' = AList.update (aggregate_id event) c0 lcs"
    by blast
  from c0 have "within_tolerance rnd c0"
    by (simp add: created_composition_def new_Composition_valid)
  with inv assms(3) lcs' show ?thesis
    by (auto simp: update_conv' split: if_splits)
next
  case False
  show ?thesis
  proof (cases "event_type (event_data event) = VOLUME_BLENDED")
    case True
    from composition_step_blended [OF assms(1) True] obtain lot :: wine_lot and existing c0 where
      "blend_composition rnd (volume lot) existing lcs (event_volumes (event_data event)) = Inr c0"
      and lcs': "lcs' = AList.update (aggregate_id event) c0 lcs"
      by blast
    then have "within_tolerance rnd c0" using blend_composition_valid by blast
    with inv assms(3) lcs' show ?thesis
      by (auto simp: update_conv' split: if_splits)
  next
    case other: False
    with False assms(1) have "lcs' = lcs"
      by (simp add: composition_step_other)
    with inv assms(3) show ?thesis by simp
  qed
qed

lemma composition_fold_valid:
  "composition_fold rnd uuid (lcs, lots) events = Inr (lcs', lots') \<Longrightarrow>
   (\<And>l c. map_of lcs l = Some c \<Longrightarrow> within_tolerance rnd c) \<Longrightarrow>
   map_of lcs' l = Some c \<Longrightarrow> within_tolerance rnd c"
proof (induction events arbitrary: lcs lots)
  case Nil
  then show ?case by simp
next
  case (Cons event events)
  from Cons.prems(1) obtain lcs1 lots1 where
    step: "composition_step rnd uuid (lcs, lots) event = Inr (lcs1, lots1)"
    and rest: "composition_fold rnd uuid (lcs1, lots1) events = Inr (lcs', lots')"
    by (auto split: sum.splits)
  have "\<And>l c. map_of lcs1 l = Some c \<Longrightarrow> within_tolerance rnd c"
    using composition_step_valid [OF step] Cons.prems(2) by blast
  from Cons.IH [OF rest this Cons.prems(3)] show ?case .
qed

subsection \<open>Rounding and the sum of a blend\<close>

text \<open>
  How the sum of the dict \<^verbatim>\<open>new_components\<close> follows the exact weighted sum through the
  loops of the blend: every rounded operation on values that are not negative adds one
  factor \<open>\<rho>\<close> to the distance.
\<close>

lemma approx_refl: "1 \<le> \<rho> \<Longrightarrow> 0 \<le> x \<Longrightarrow> approx \<rho> k x x"
proof -
  assume r: "1 \<le> \<rho>" and x: "0 \<le> x"
  have "1 \<le> \<rho> ^ k" using r by (rule one_le_power)
  then have "1 * x \<le> \<rho> ^ k * x" using x by (rule mult_right_mono)
  then show ?thesis using x by (simp add: approx_def)
qed

lemma approx_mono:
  assumes "approx \<rho> j x y" and "j \<le> k" and "1 \<le> \<rho>"
  shows "approx \<rho> k x y"
proof -
  have p: "\<rho> ^ j \<le> \<rho> ^ k" using assms(2) assms(3) by (rule power_increasing)
  from assms(1) have x: "0 \<le> x" and y: "0 \<le> y" and a: "x \<le> \<rho> ^ j * y" and b: "y \<le> \<rho> ^ j * x"
    by (simp_all add: approx_def)
  have "\<rho> ^ j * y \<le> \<rho> ^ k * y" using p y by (rule mult_right_mono)
  moreover have "\<rho> ^ j * x \<le> \<rho> ^ k * x" using p x by (rule mult_right_mono)
  ultimately show ?thesis using x y a b by (simp add: approx_def)
qed

lemma approx_add:
  "approx \<rho> k a a' \<Longrightarrow> approx \<rho> k b b' \<Longrightarrow> approx \<rho> k (a + b) (a' + b')"
  by (simp add: approx_def distrib_left add_mono)

lemma approx_mult:
  assumes "approx \<rho> j a a'" and "approx \<rho> k b b'" and "1 \<le> \<rho>"
  shows "approx \<rho> (j + k) (a * b) (a' * b')"
proof -
  from assms(1) have a: "0 \<le> a" "0 \<le> a'" "a \<le> \<rho> ^ j * a'" "a' \<le> \<rho> ^ j * a"
    by (simp_all add: approx_def)
  from assms(2) have b: "0 \<le> b" "0 \<le> b'" "b \<le> \<rho> ^ k * b'" "b' \<le> \<rho> ^ k * b"
    by (simp_all add: approx_def)
  have pj: "0 \<le> \<rho> ^ j" and pk: "0 \<le> \<rho> ^ k" using assms(3) by simp_all
  have "a * b \<le> (\<rho> ^ j * a') * (\<rho> ^ k * b')"
    using a(3) b(3) by (rule mult_mono) (use a b pj in simp_all)
  then have up: "a * b \<le> \<rho> ^ (j + k) * (a' * b')"
    by (simp add: power_add mult_ac)
  have "a' * b' \<le> (\<rho> ^ j * a) * (\<rho> ^ k * b)"
    using a(4) b(4) by (rule mult_mono) (use a b pj in simp_all)
  then have lo: "a' * b' \<le> \<rho> ^ (j + k) * (a * b)"
    by (simp add: power_add mult_ac)
  from up lo a b show ?thesis by (simp add: approx_def)
qed

lemma approx_divide:
  assumes "approx \<rho> j a a'" and "approx \<rho> k b b'" and "0 < b" and "0 < b'" and "1 \<le> \<rho>"
  shows "approx \<rho> (j + k) (a / b) (a' / b')"
proof -
  from assms(2) have sw: "approx \<rho> k b' b" by (simp add: approx_def)
  from approx_mult [OF assms(1) sw assms(5)]
  have m: "a * b' \<le> \<rho> ^ (j + k) * (a' * b)" "a' * b \<le> \<rho> ^ (j + k) * (a * b')"
    and nn: "0 \<le> a" "0 \<le> a'"
    using assms(1) by (simp_all add: approx_def)
  have up: "a / b \<le> \<rho> ^ (j + k) * (a' / b')"
    using m(1) assms(3,4) by (simp add: field_simps)
  have lo: "a' / b' \<le> \<rho> ^ (j + k) * (a / b)"
    using m(2) assms(3,4) by (simp add: field_simps)
  from up lo nn assms(3,4) show ?thesis by (simp add: approx_def)
qed

lemma rounds_nonneg:
  assumes "rounds_within \<rho> rnd" and "0 \<le> x"
  shows "0 \<le> rnd x"
proof (rule ccontr)
  assume "\<not> 0 \<le> rnd x"
  then have neg: "rnd x < 0" by simp
  from assms have r: "1 \<le> \<rho>" and le: "x \<le> \<rho> * rnd x" by (simp_all add: rounds_within_def)
  have "\<rho> * rnd x < 0" using r neg by (simp add: mult_pos_neg)
  with le assms(2) show False by simp
qed

lemma approx_rnd:
  assumes "rounds_within \<rho> rnd" and "approx \<rho> k x y"
  shows "approx \<rho> (Suc k) (rnd x) y"
proof -
  from assms(2) have x: "0 \<le> x" and y: "0 \<le> y" and a: "x \<le> \<rho> ^ k * y" and b: "y \<le> \<rho> ^ k * x"
    by (simp_all add: approx_def)
  from assms(1) x have r: "1 \<le> \<rho>" and up: "rnd x \<le> \<rho> * x" and lo: "x \<le> \<rho> * rnd x"
    by (simp_all add: rounds_within_def)
  have r0: "0 \<le> \<rho>" using r by simp
  have pk: "0 \<le> \<rho> ^ k" using r0 by simp
  have "\<rho> * x \<le> \<rho> * (\<rho> ^ k * y)" using a r0 by (rule mult_left_mono)
  with up have c1: "rnd x \<le> \<rho> ^ Suc k * y" by (simp add: mult_ac)
  have "\<rho> ^ k * x \<le> \<rho> ^ k * (\<rho> * rnd x)" using lo pk by (rule mult_left_mono)
  with b have c2: "y \<le> \<rho> ^ Suc k * rnd x" by (simp add: mult_ac)
  from c1 c2 y rounds_nonneg [OF assms(1) x] show ?thesis by (simp add: approx_def)
qed

lemma approx_trans:
  assumes "approx \<rho> j x y" and "approx \<rho> k y z" and "1 \<le> \<rho>"
  shows "approx \<rho> (j + k) x z"
proof -
  from assms(1) have x: "0 \<le> x" and a: "x \<le> \<rho> ^ j * y" and b: "y \<le> \<rho> ^ j * x"
    by (simp_all add: approx_def)
  from assms(2) have z: "0 \<le> z" and c: "y \<le> \<rho> ^ k * z" and d: "z \<le> \<rho> ^ k * y"
    by (simp_all add: approx_def)
  have pj: "0 \<le> \<rho> ^ j" and pk: "0 \<le> \<rho> ^ k" using assms(3) by simp_all
  have "\<rho> ^ j * y \<le> \<rho> ^ j * (\<rho> ^ k * z)" using c pj by (rule mult_left_mono)
  with a have up: "x \<le> \<rho> ^ (j + k) * z" by (simp add: power_add mult_ac)
  have "\<rho> ^ k * y \<le> \<rho> ^ k * (\<rho> ^ j * x)" using b pk by (rule mult_left_mono)
  with d have lo: "z \<le> \<rho> ^ (j + k) * x" by (simp add: power_add mult_ac)
  from up lo x z show ?thesis by (simp add: approx_def)
qed

lemma dict_get_nonnegative: "nonnegative d \<Longrightarrow> 0 \<le> dict_get d k 0"
  by (induction d) (auto simp: nonnegative_def dict_get_def)

lemma dict_get_le_sum: "nonnegative d \<Longrightarrow> dict_get d k 0 \<le> sum_list (map snd d)"
proof (induction d)
  case Nil
  then show ?case by (simp add: dict_get_def)
next
  case (Cons p d)
  then have nn: "nonnegative d" and p: "0 \<le> snd p" by (simp_all add: nonnegative_def)
  have s: "0 \<le> sum_list (map snd d)"
    using nn by (induction d) (auto simp: nonnegative_def)
  show ?case
  proof (cases "fst p = k")
    case True
    then show ?thesis using s by (cases p) (simp add: dict_get_def)
  next
    case False
    then have "dict_get (p # d) k 0 = dict_get d k 0" by (cases p) (simp add: dict_get_def)
    with Cons.IH [OF nn] p show ?thesis by simp
  qed
qed

lemma sum_update:
  "sum_list (map snd (AList.update k v d)) = sum_list (map snd d) - dict_get d k 0 + (v::rat)"
  by (induction d) (auto simp: dict_get_def)

lemma nonnegative_update: "nonnegative d \<Longrightarrow> 0 \<le> v \<Longrightarrow> nonnegative (AList.update k v d)"
  by (induction d) (auto simp: nonnegative_def)

lemma length_update_le: "length (AList.update k v d) \<le> Suc (length d)"
  by (induction d) auto

lemma accumulate_approx:
  assumes R: "rounds_within \<rho> rnd" and nn: "nonnegative d"
    and ap: "approx \<rho> j (sum_list (map snd d)) E" and ax: "approx \<rho> j x X"
  shows "nonnegative (AList.update c (dec_add rnd (dict_get d c 0) x) d)
     \<and> approx \<rho> (Suc j)
          (sum_list (map snd (AList.update c (dec_add rnd (dict_get d c 0) x) d))) (E + X)"
proof -
  define old where "old = dict_get d c 0"
  define S where "S = sum_list (map snd d)"
  define r where "r = rnd (old + x)"
  define P where "P = \<rho> ^ j"
  from R have rho: "1 \<le> \<rho>" by (simp add: rounds_within_def)
  have rho0: "0 \<le> \<rho>" using rho by simp
  have P0: "0 \<le> P" using rho0 by (simp add: P_def)
  have old0: "0 \<le> old" unfolding old_def using nn by (rule dict_get_nonnegative)
  have oldS: "old \<le> S" unfolding old_def S_def using nn by (rule dict_get_le_sum)
  from ax have x0: "0 \<le> x" and X0: "0 \<le> X" and xX: "x \<le> P * X" and Xx: "X \<le> P * x"
    by (simp_all add: approx_def P_def)
  from ap have E0: "0 \<le> E" and SE: "S \<le> P * E" and ES: "E \<le> P * S"
    by (simp_all add: approx_def P_def S_def)
  have ox: "0 \<le> old + x" using old0 x0 by simp
  from R ox have rup: "r \<le> \<rho> * (old + x)" and rlo: "old + x \<le> \<rho> * r"
    by (simp_all add: rounds_within_def r_def)
  have r0: "0 \<le> r" unfolding r_def using R ox by (rule rounds_nonneg)
  define S1 where "S1 = S - old + r"
  have rest: "0 \<le> S - old" using oldS by simp
  have rest_le: "S - old \<le> \<rho> * (S - old)"
    using mult_right_mono [OF rho rest] by simp
  have "S1 \<le> \<rho> * (S - old) + \<rho> * (old + x)"
    unfolding S1_def using rest_le rup by simp
  then have up1: "S1 \<le> \<rho> * (S + x)" by (simp add: algebra_simps)
  have "S + x \<le> P * (E + X)" using SE xX by (simp add: distrib_left)
  then have "\<rho> * (S + x) \<le> \<rho> * (P * (E + X))" using rho0 by (rule mult_left_mono)
  with up1 have up: "S1 \<le> \<rho> ^ Suc j * (E + X)" by (simp add: P_def mult_ac)
  have "S + x \<le> \<rho> * (S - old) + \<rho> * r"
    using rest_le rlo by simp
  then have lo1: "S + x \<le> \<rho> * S1" by (simp add: S1_def algebra_simps)
  have "E + X \<le> P * (S + x)" using ES Xx by (simp add: distrib_left)
  moreover have "P * (S + x) \<le> P * (\<rho> * S1)" using lo1 P0 by (rule mult_left_mono)
  ultimately have lo: "E + X \<le> \<rho> ^ Suc j * S1" by (simp add: P_def mult_ac)
  have S10: "0 \<le> S1" unfolding S1_def using rest r0 by simp
  have sum: "sum_list (map snd (AList.update c (dec_add rnd (dict_get d c 0) x) d)) = S1"
    by (simp add: sum_update S1_def S_def old_def r_def dec_add_def)
  have "nonnegative (AList.update c (dec_add rnd (dict_get d c 0) x) d)"
    using nn r0 by (simp add: nonnegative_update dec_add_def r_def old_def)
  moreover have "approx \<rho> (Suc j) S1 (E + X)"
    using up lo S10 E0 X0 by (simp add: approx_def)
  ultimately show ?thesis unfolding sum by simp
qed

lemma add_components_approx:
  assumes R: "rounds_within \<rho> rnd" and "nonnegative cs" and "nonnegative acc"
    and "approx \<rho> i w w'" and "Suc i \<le> j"
    and "approx \<rho> j (sum_list (map snd acc)) E"
  shows "nonnegative (add_components rnd w cs acc)
     \<and> approx \<rho> (j + length cs) (sum_list (map snd (add_components rnd w cs acc)))
          (E + sum_list (map snd cs) * w')
     \<and> length (add_components rnd w cs acc) \<le> length acc + length cs"
  using assms(2,3,5,6)
proof (induction cs arbitrary: acc j E)
  case Nil
  then show ?case by simp
next
  case (Cons p cs)
  obtain c pct where p: "p = (c, pct)" by (cases p)
  from R have rho: "1 \<le> \<rho>" by (simp add: rounds_within_def)
  from Cons.prems(1) p have pct: "0 \<le> pct" and cs: "nonnegative cs"
    by (simp_all add: nonnegative_def)
  have "approx \<rho> (0 + i) (pct * w) (pct * w')"
    using approx_refl [OF rho pct, of 0] assms(4) rho by (rule approx_mult)
  then have "approx \<rho> (Suc i) (dec_mul rnd pct w) (pct * w')"
    using approx_rnd [OF R] by (simp add: dec_mul_def)
  then have x: "approx \<rho> j (dec_mul rnd pct w) (pct * w')"
    using Cons.prems(3) rho by (rule approx_mono)
  let ?acc1 = "AList.update c (dec_add rnd (dict_get acc c 0) (dec_mul rnd pct w)) acc"
  from accumulate_approx [OF R Cons.prems(2) Cons.prems(4) x, of c]
  have nn1: "nonnegative ?acc1"
    and ap1: "approx \<rho> (Suc j) (sum_list (map snd ?acc1)) (E + pct * w')"
    by simp_all
  have le: "Suc i \<le> Suc j" using Cons.prems(3) by simp
  from Cons.IH [OF cs nn1 le ap1]
  have a: "nonnegative (add_components rnd w cs ?acc1)"
    and b: "approx \<rho> (Suc j + length cs) (sum_list (map snd (add_components rnd w cs ?acc1)))
              (E + pct * w' + sum_list (map snd cs) * w')"
    and c: "length (add_components rnd w cs ?acc1) \<le> length ?acc1 + length cs"
    by simp_all
  have tgt: "E + pct * w' + sum_list (map snd cs) * w' = E + sum_list (map snd (p # cs)) * w'"
    by (simp add: p algebra_simps)
  have len: "length (add_components rnd w cs ?acc1) \<le> length acc + length (p # cs)"
    using c length_update_le [of c _ acc] by (simp add: le_trans)
  show ?case
    unfolding p using a b len by (simp add: p tgt [unfolded p] algebra_simps)
qed

lemma dec_sum_approx:
  assumes R: "rounds_within \<rho> rnd" and "list_all (\<lambda>x. 0 \<le> x) xs" and "approx \<rho> j s s'"
  shows "approx \<rho> (j + length xs) (dec_sum rnd s xs) (s' + sum_list xs)"
  using assms(2,3)
proof (induction xs arbitrary: s s' j)
  case Nil
  then show ?case by (simp add: dec_sum_def)
next
  case (Cons x xs)
  from R have rho: "1 \<le> \<rho>" by (simp add: rounds_within_def)
  from Cons.prems(1) have x: "0 \<le> x" and xs: "list_all (\<lambda>x. 0 \<le> x) xs" by simp_all
  have "approx \<rho> j (s + x) (s' + x)"
    using Cons.prems(2) approx_refl [OF rho x] by (rule approx_add)
  then have "approx \<rho> (Suc j) (dec_add rnd s x) (s' + x)"
    using approx_rnd [OF R] by (simp add: dec_add_def)
  from Cons.IH [OF xs this]
  show ?case by (simp add: dec_sum_def algebra_simps)
qed

lemma add_blends_approx:
  assumes R: "rounds_within \<rho> rnd" and V: "0 < V" "0 < V'" "approx \<rho> m V V'"
    and "Suc (Suc m) \<le> j" and "nonnegative acc"
    and "approx \<rho> j (sum_list (map snd acc)) E"
    and "\<forall>(l, b) \<in> set volumes. 0 \<le> b \<and>
           (0 < b \<longrightarrow> (\<exists>c. map_of lcs l = Some c \<and> nonnegative (components c)))"
  shows "\<exists>cs. add_blends rnd V lcs volumes acc = Inr cs \<and> nonnegative cs
           \<and> approx \<rho> (j + source_terms lcs volumes) (sum_list (map snd cs))
                (E + blend_target lcs V' volumes)
           \<and> length cs \<le> length acc + source_terms lcs volumes"
  using assms(5-8)
proof (induction volumes arbitrary: acc j E)
  case Nil
  then show ?case by (simp add: source_terms_def blend_target_def)
next
  case (Cons p volumes)
  obtain l b where p: "p = (l, b)" by (cases p)
  from R have rho: "1 \<le> \<rho>" by (simp add: rounds_within_def)
  have rest: "\<forall>(l, b) \<in> set volumes. 0 \<le> b \<and>
           (0 < b \<longrightarrow> (\<exists>c. map_of lcs l = Some c \<and> nonnegative (components c)))"
    using Cons.prems(4) by simp
  have b0: "0 \<le> b"
    and found: "0 < b \<longrightarrow> (\<exists>c. map_of lcs l = Some c \<and> nonnegative (components c))"
    using Cons.prems(4) p by simp_all
  show ?case
  proof (cases "b \<le> 0")
    case True
    then have "\<not> 0 < b" by simp
    with Cons.IH [OF Cons.prems(1) Cons.prems(2) Cons.prems(3) rest] True show ?thesis
      by (simp add: p source_terms_def blend_target_def)
  next
    case False
    then have pos: "0 < b" by simp
    with found obtain c where c: "map_of lcs l = Some c" and nc: "nonnegative (components c)"
      by blast
    have get: "dict_get lcs l (Composition []) = c" using c by (simp add: dict_get_def)
    have div: "dec_div rnd b V = Inr (rnd (b / V))" using V(1) by (simp add: dec_div_def)
    have "approx \<rho> (0 + m) (b / V) (b / V')"
      using approx_refl [OF rho b0, of 0] V(3) V(1) V(2) rho by (rule approx_divide)
    then have w: "approx \<rho> (Suc m) (rnd (b / V)) (b / V')"
      using approx_rnd [OF R] by simp
    from add_components_approx [OF R nc Cons.prems(2) w Cons.prems(1) Cons.prems(3)]
    have nn1: "nonnegative (add_components rnd (rnd (b / V)) (components c) acc)"
      and ap1: "approx \<rho> (j + length (components c))
                 (sum_list (map snd (add_components rnd (rnd (b / V)) (components c) acc)))
                 (E + sum_list (map snd (components c)) * (b / V'))"
      and len1: "length (add_components rnd (rnd (b / V)) (components c) acc)
                   \<le> length acc + length (components c)"
      by simp_all
    have le: "Suc (Suc m) \<le> j + length (components c)" using Cons.prems(1) by simp
    from Cons.IH [OF le nn1 ap1 rest]
    obtain cs where run: "add_blends rnd V lcs volumes
                            (add_components rnd (rnd (b / V)) (components c) acc) = Inr cs"
      and nn: "nonnegative cs"
      and ap: "approx \<rho> (j + length (components c) + source_terms lcs volumes)
                 (sum_list (map snd cs))
                 (E + sum_list (map snd (components c)) * (b / V') + blend_target lcs V' volumes)"
      and len: "length cs \<le> length (add_components rnd (rnd (b / V)) (components c) acc)
                  + source_terms lcs volumes"
      by blast
    have st: "source_terms lcs (p # volumes) = length (components c) + source_terms lcs volumes"
      using pos by (simp add: p source_terms_def get)
    have bt: "blend_target lcs V' (p # volumes)
                = sum_list (map snd (components c)) * (b / V') + blend_target lcs V' volumes"
      using pos by (simp add: p blend_target_def get)
    have run': "add_blends rnd V lcs (p # volumes) acc = Inr cs"
      using False div c run by (simp add: p)
    have ap': "approx \<rho> (j + source_terms lcs (p # volumes)) (sum_list (map snd cs))
                (E + blend_target lcs V' (p # volumes))"
      using ap by (simp add: st bt add.assoc)
    have len': "length cs \<le> length acc + source_terms lcs (p # volumes)"
      using len len1 by (simp add: st)
    from run' nn ap' len' show ?thesis by blast
  qed
qed

lemma blend_target_near:
  assumes rho: "1 \<le> \<rho>" and V: "0 < V"
    and "\<forall>(l, b) \<in> set volumes. 0 \<le> b \<and>
           (0 < b \<longrightarrow> approx \<rho> k (sum_list (map snd (components (dict_get lcs l (Composition []))))) 1)"
  shows "approx \<rho> k (blend_target lcs V volumes) (sum_list (map snd volumes) / V)"
  using assms(3)
proof (induction volumes)
  case Nil
  then show ?case by (simp add: blend_target_def approx_def)
next
  case (Cons p volumes)
  obtain l b where p: "p = (l, b)" by (cases p)
  have rest: "\<forall>(l, b) \<in> set volumes. 0 \<le> b \<and>
           (0 < b \<longrightarrow> approx \<rho> k (sum_list (map snd (components (dict_get lcs l (Composition []))))) 1)"
    using Cons.prems by simp
  have b0: "0 \<le> b"
    and near: "0 < b \<longrightarrow> approx \<rho> k (sum_list (map snd (components (dict_get lcs l (Composition []))))) 1"
    using Cons.prems p by simp_all
  have w: "0 \<le> b / V" using b0 V by simp
  have each: "approx \<rho> k
                (if 0 < b then sum_list (map snd (components (dict_get lcs l (Composition [])))) * (b / V)
                 else 0)
                (b / V)"
  proof (cases "0 < b")
    case True
    with near have "approx \<rho> k (sum_list (map snd (components (dict_get lcs l (Composition []))))) 1"
      by simp
    from approx_mult [OF this approx_refl [OF rho w, of 0] rho] True show ?thesis by simp
  next
    case False
    with b0 have "b = 0" by simp
    then show ?thesis by (simp add: approx_def)
  qed
  from approx_add [OF each Cons.IH [OF rest]]
  show ?case by (simp add: p blend_target_def add_divide_distrib)
qed

lemma blend_composition_approx:
  assumes R: "rounds_within \<rho> rnd" and V0: "0 \<le> V_old"
    and vols: "\<forall>(l, b) \<in> set volumes. 0 \<le> b \<and>
                 (0 < b \<longrightarrow> (\<exists>c. map_of lcs l = Some c \<and> near_one \<rho> k (components c)))"
    and total: "0 < V_old + sum_list (map snd volumes)"
    and ex: "near_one \<rho> k (components existing)"
    and budget: "\<rho> ^ (k + 2 * (length (components existing) + source_terms lcs volumes)
                       + length volumes + 3) < 10001 / 10000"
  shows "\<exists>c. blend_composition rnd V_old existing lcs volumes = Inr c
           \<and> near_one \<rho> (k + length (components existing) + source_terms lcs volumes
                             + length volumes + 3) (components c)
           \<and> within_tolerance rnd c"
proof -
  from R have rho: "1 \<le> \<rho>" by (simp add: rounds_within_def)
  define n where "n = length volumes"
  define len_ex where "len_ex = length (components existing)"
  define st where "st = source_terms lcs volumes"
  define S_ex where "S_ex = sum_list (map snd (components existing))"
  define T where "T = dec_sum rnd 0 (map snd volumes)"
  define V where "V = dec_add rnd V_old T"
  define V' where "V' = V_old + sum_list (map snd volumes)"
  have V'pos: "0 < V'" using total by (simp add: V'_def)
  have bs: "list_all (\<lambda>x. 0 \<le> x) (map snd volumes)"
    using vols by (auto simp: list_all_iff)
  have "approx \<rho> (0 + length (map snd volumes)) T (0 + sum_list (map snd volumes))"
    unfolding T_def using R bs by (rule dec_sum_approx) (simp add: approx_def)
  then have T: "approx \<rho> n T (sum_list (map snd volumes))" by (simp add: n_def)
  have "approx \<rho> n (V_old + T) V'"
    unfolding V'_def using approx_refl [OF rho V0] T by (rule approx_add)
  then have V: "approx \<rho> (Suc n) V V'"
    using approx_rnd [OF R] by (simp add: V_def dec_add_def)
  have Vpos: "0 < V"
  proof (rule ccontr)
    assume "\<not> 0 < V"
    then have "V \<le> 0" by simp
    moreover have "0 \<le> \<rho> ^ Suc n" using rho by simp
    ultimately have "\<rho> ^ Suc n * V \<le> 0" by (simp add: mult_nonneg_nonpos)
    moreover from V have "V' \<le> \<rho> ^ Suc n * V" by (simp add: approx_def)
    ultimately show False using V'pos by simp
  qed
  have ex_nn: "nonnegative (components existing)"
    and ex_near: "approx \<rho> k S_ex 1"
    using ex by (simp_all add: near_one_def S_ex_def)
  have first: "\<exists>cs0. existing_contribution rnd V_old V existing = Inr cs0 \<and> nonnegative cs0
      \<and> approx \<rho> (n + 3 + len_ex) (sum_list (map snd cs0)) (S_ex * (V_old / V'))
      \<and> length cs0 \<le> len_ex"
  proof (cases "0 < V_old")
    case True
    have "approx \<rho> (0 + Suc n) (V_old / V) (V_old / V')"
      using approx_refl [OF rho V0, of 0] V Vpos V'pos rho by (rule approx_divide)
    then have w: "approx \<rho> (Suc (Suc n)) (rnd (V_old / V)) (V_old / V')"
      using approx_rnd [OF R] by simp
    have e: "approx \<rho> (n + 3) (sum_list (map snd ([] :: components_dict))) 0"
      by (simp add: approx_def)
    have le: "Suc (Suc (Suc n)) \<le> n + 3" by simp
    have nil: "nonnegative []" by (simp add: nonnegative_def)
    from add_components_approx [OF R ex_nn nil w le e]
    have "nonnegative (add_components rnd (rnd (V_old / V)) (components existing) [])"
      and "approx \<rho> (n + 3 + len_ex)
             (sum_list (map snd (add_components rnd (rnd (V_old / V)) (components existing) [])))
             (S_ex * (V_old / V'))"
      and "length (add_components rnd (rnd (V_old / V)) (components existing) []) \<le> len_ex"
      by (simp_all add: len_ex_def S_ex_def)
    moreover have "existing_contribution rnd V_old V existing
                     = Inr (add_components rnd (rnd (V_old / V)) (components existing) [])"
      using True Vpos by (simp add: existing_contribution_def dec_div_def)
    ultimately show ?thesis by blast
  next
    case False
    with V0 have z: "V_old = 0" by simp
    have "existing_contribution rnd V_old V existing = Inr []"
      using z by (simp add: existing_contribution_def)
    moreover have "approx \<rho> (n + 3 + len_ex) (sum_list (map snd ([] :: components_dict)))
                     (S_ex * (V_old / V'))"
      using z by (simp add: approx_def)
    ultimately show ?thesis by (auto simp: nonnegative_def)
  qed
  then obtain cs0 where c0: "existing_contribution rnd V_old V existing = Inr cs0"
    and nn0: "nonnegative cs0"
    and ap0: "approx \<rho> (n + 3 + len_ex) (sum_list (map snd cs0)) (S_ex * (V_old / V'))"
    and len0: "length cs0 \<le> len_ex"
    by blast
  have vols_nn: "\<forall>(l, b) \<in> set volumes. 0 \<le> b \<and>
           (0 < b \<longrightarrow> (\<exists>c. map_of lcs l = Some c \<and> nonnegative (components c)))"
    using vols by (auto simp: near_one_def)
  have le2: "Suc (Suc (Suc n)) \<le> n + 3 + len_ex" by simp
  from add_blends_approx [OF R Vpos V'pos V le2 nn0 ap0 vols_nn]
  obtain cs where run: "add_blends rnd V lcs volumes cs0 = Inr cs" and nn: "nonnegative cs"
    and ap: "approx \<rho> (n + 3 + len_ex + st) (sum_list (map snd cs))
               (S_ex * (V_old / V') + blend_target lcs V' volumes)"
    and len: "length cs \<le> length cs0 + st"
    unfolding st_def by blast
  have w0: "0 \<le> V_old / V'" using V0 V'pos by simp
  have t1: "approx \<rho> k (S_ex * (V_old / V')) (V_old / V')"
    using approx_mult [OF ex_near approx_refl [OF rho w0, of 0] rho] by simp
  have vols_near: "\<forall>(l, b) \<in> set volumes. 0 \<le> b \<and>
           (0 < b \<longrightarrow> approx \<rho> k (sum_list (map snd (components (dict_get lcs l (Composition []))))) 1)"
    using vols by (auto simp: near_one_def dict_get_def)
  note t2 = blend_target_near [OF rho V'pos vols_near]
  have one: "V_old / V' + sum_list (map snd volumes) / V' = 1"
    using V'pos by (simp add: V'_def add_divide_distrib [symmetric])
  from approx_add [OF t1 t2]
  have tgt: "approx \<rho> k (S_ex * (V_old / V') + blend_target lcs V' volumes) 1"
    by (simp add: one)
  from approx_trans [OF ap tgt rho]
  have sum_near: "approx \<rho> (n + 3 + len_ex + st + k) (sum_list (map snd cs)) 1" .
  have near: "near_one \<rho> (k + length (components existing) + source_terms lcs volumes
                             + length volumes + 3) cs"
    using nn sum_near
    by (simp add: near_one_def n_def len_ex_def st_def add.commute add.left_commute)
  have entries: "list_all (\<lambda>x. 0 \<le> x) (map snd cs)"
    using nn by (simp add: nonnegative_def list_all_iff)
  have "approx \<rho> (0 + length (map snd cs)) (dec_sum rnd 0 (map snd cs)) (0 + sum_list (map snd cs))"
    using R entries by (rule dec_sum_approx) (simp add: approx_def)
  then have tp: "approx \<rho> (length cs) (total_percentage rnd cs) (sum_list (map snd cs))"
    by (simp add: total_percentage_def)
  define K where "K = k + 2 * (len_ex + st) + n + 3"
  have "length cs + (n + 3 + len_ex + st + k) \<le> K"
    using len len0 by (simp add: K_def)
  with approx_trans [OF tp sum_near rho]
  have tot: "approx \<rho> K (total_percentage rnd cs) 1"
    using rho approx_mono by blast
  have bK: "\<rho> ^ K < 10001 / 10000"
    using budget by (simp add: K_def len_ex_def st_def n_def)
  from tot have t0: "0 \<le> total_percentage rnd cs"
    and up: "total_percentage rnd cs \<le> \<rho> ^ K" and lo: "1 \<le> \<rho> ^ K * total_percentage rnd cs"
    by (simp_all add: approx_def)
  have hi: "total_percentage rnd cs < 10001 / 10000" using up bK by simp
  have low: "9999 / 10000 < total_percentage rnd cs"
  proof (rule ccontr)
    assume "\<not> 9999 / 10000 < total_percentage rnd cs"
    then have le: "total_percentage rnd cs \<le> 9999 / 10000" by simp
    have "\<rho> ^ K * total_percentage rnd cs \<le> (10001 / 10000) * (9999 / 10000)"
      by (rule mult_mono) (use bK le t0 rho in simp_all)
    with lo show False by simp
  qed
  have made: "new_Composition rnd cs = Inr (Composition cs)"
    using hi low by (simp add: new_Composition_def validate_percentages_def)
  have "blend_composition rnd V_old existing lcs volumes = Inr (Composition cs)"
    using c0 run made by (simp add: blend_composition_def Let_def T_def [symmetric] V_def [symmetric])
  moreover have "within_tolerance rnd (Composition cs)"
    using hi low by (simp add: within_tolerance_def)
  ultimately show ?thesis using near by auto
qed

lemma new_Composition_near:
  assumes R: "rounds_within \<rho> rnd" and near: "near_one \<rho> k cs"
    and budget: "\<rho> ^ (k + length cs) < 10001 / 10000"
  shows "new_Composition rnd cs = Inr (Composition cs)"
proof -
  from R have rho: "1 \<le> \<rho>" by (simp add: rounds_within_def)
  from near have nn: "nonnegative cs" and s: "approx \<rho> k (sum_list (map snd cs)) 1"
    by (simp_all add: near_one_def)
  have entries: "list_all (\<lambda>x. 0 \<le> x) (map snd cs)"
    using nn by (simp add: nonnegative_def list_all_iff)
  have "approx \<rho> (0 + length (map snd cs)) (dec_sum rnd 0 (map snd cs)) (0 + sum_list (map snd cs))"
    using R entries by (rule dec_sum_approx) (simp add: approx_def)
  then have tp: "approx \<rho> (length cs) (total_percentage rnd cs) (sum_list (map snd cs))"
    by (simp add: total_percentage_def)
  from approx_trans [OF tp s rho]
  have tot: "approx \<rho> (k + length cs) (total_percentage rnd cs) 1"
    by (simp add: add.commute)
  then have t0: "0 \<le> total_percentage rnd cs"
    and up: "total_percentage rnd cs \<le> \<rho> ^ (k + length cs)"
    and lo: "1 \<le> \<rho> ^ (k + length cs) * total_percentage rnd cs"
    by (simp_all add: approx_def)
  have hi: "total_percentage rnd cs < 10001 / 10000" using up budget by simp
  have low: "9999 / 10000 < total_percentage rnd cs"
  proof (rule ccontr)
    assume "\<not> 9999 / 10000 < total_percentage rnd cs"
    then have le: "total_percentage rnd cs \<le> 9999 / 10000" by simp
    have "\<rho> ^ (k + length cs) * total_percentage rnd cs \<le> (10001 / 10000) * (9999 / 10000)"
      by (rule mult_mono) (use budget le t0 rho in simp_all)
    with lo show False by simp
  qed
  show ?thesis
    using hi low by (simp add: new_Composition_def validate_percentages_def)
qed

lemma created_step_conserves:
  assumes R: "rounds_within \<rho> rnd" and "event_type (event_data event) = CREATED"
    and "near_one \<rho> k (dict_of_components (event_components (event_data event)) [])"
    and "\<rho> ^ (k + length (dict_of_components (event_components (event_data event)) []))
           < 10001 / 10000"
  shows "\<exists>lots'. composition_step rnd uuid (lcs, lots) event
           = Inr (AList.update (aggregate_id event)
                    (Composition (dict_of_components (event_components (event_data event)) [])) lcs,
                  lots')"
proof -
  from assms(2) obtain a t c cs where e: "event_data event = WineLotCreated a t c cs"
    by (cases "event_data event") simp_all
  from new_Composition_near [OF R assms(3) assms(4)]
  show ?thesis
    by (simp add: composition_step_def created_composition_def e load_def)
qed

lemma blended_step_conserves:
  assumes R: "rounds_within \<rho> rnd" and "event_type (event_data event) = VOLUME_BLENDED"
    and "map_of lots (aggregate_id event) = Some lot" and "0 \<le> volume lot"
    and "map_of lcs (aggregate_id event) = Some existing"
    and "near_one \<rho> k (components existing)"
    and "\<forall>(l, b) \<in> set (event_volumes (event_data event)). 0 \<le> b \<and>
           (0 < b \<longrightarrow> (\<exists>c. map_of lcs l = Some c \<and> near_one \<rho> k (components c)))"
    and "0 < volume lot + sum_list (map snd (event_volumes (event_data event)))"
    and "\<rho> ^ (k + 2 * (length (components existing)
                         + source_terms lcs (event_volumes (event_data event)))
                + length (event_volumes (event_data event)) + 3) < 10001 / 10000"
  shows "\<exists>c lots'. composition_step rnd uuid (lcs, lots) event
             = Inr (AList.update (aggregate_id event) c lcs, lots')
           \<and> near_one \<rho> (k + length (components existing)
                             + source_terms lcs (event_volumes (event_data event))
                             + length (event_volumes (event_data event)) + 3) (components c)
           \<and> within_tolerance rnd c"
proof -
  from assms(2) obtain a s t vs r where e: "event_data event = VolumeBlended a s t vs r"
    by (cases "event_data event") simp_all
  from blend_composition_approx [OF R assms(4) assms(7) assms(8) assms(6) assms(9)]
  obtain c where b: "blend_composition rnd (volume lot) existing lcs
                       (event_volumes (event_data event)) = Inr c"
    and n: "near_one \<rho> (k + length (components existing)
                             + source_terms lcs (event_volumes (event_data event))
                             + length (event_volumes (event_data event)) + 3) (components c)"
    and w: "within_tolerance rnd c"
    by blast
  have "composition_step rnd uuid (lcs, lots) event
          = Inr (AList.update (aggregate_id event) c lcs,
                 AList.update (aggregate_id event)
                   (apply_event rnd (uuid event) lot (event_data event)) lots)"
    using assms(3) assms(5) b by (simp add: composition_step_def e load_def)
  with n w show ?thesis by blast
qed

lemma worst_rounding_within: "rounds_within (1 + 1 / 10 ^ 27) worst_rounding"
proof -
  have "x \<le> (1 + 1 / 10 ^ 27) * (x * (1 + 1 / 10 ^ 27))" if "0 \<le> x" for x :: rat
  proof -
    have "1 * x \<le> ((1 + 1 / 10 ^ 27) * (1 + 1 / 10 ^ 27)) * x"
      using that by (intro mult_right_mono) simp_all
    then show ?thesis by (simp add: mult_ac)
  qed
  then show ?thesis
    by (simp add: rounds_within_def worst_rounding_def mult_ac)
qed

text \<open>
  Claim C7.  Every \<^verbatim>\<open>Composition\<close> the program constructs sums to within 0.9999 and
  1.0001, because the constructor runs \<^verbatim>\<open>validate_percentages\<close>; so does every
  composition in the dict that the blend fold returns, and the one that
  \<^verbatim>\<open>calculate_composition\<close> returns.  And the arithmetic of the fold conserves the sum, so
  that the constructor has nothing to refuse: with a rounding \<open>rnd'\<close> that is within the
  factor \<open>\<rho>\<close>, a pass of the loop on a creation event whose components are not negative
  and sum to 1 (or to within \<open>\<rho> ^ k\<close> of 1) stores that composition; and a pass on a
  \<^verbatim>\<open>VolumeBlended\<close> event, for a lot whose volume is not negative and whose composition sums
  to 1 (to within \<open>\<rho> ^ k\<close>), with volumes that are not negative and not all zero and
  source lots whose compositions at that time sum to 1 (to within \<open>\<rho> ^ k\<close>), stores a
  composition whose exact sum is within \<open>\<rho> ^ (k + m + 3)\<close> of 1, where \<open>m\<close> is the number
  of additions and volumes of the pass; it raises nothing and passes the validator as long
  as \<open>\<rho> ^ (k + 2 * additions + volumes + 3)\<close> stays below 1.0001.  The sum that
  \<open>within_tolerance\<close> tests is the one the validator computes, with the rounding.
\<close>

theorem compositions_within_tolerance:
  "(new_Composition rnd cs = Inr c \<longrightarrow> within_tolerance rnd c)
   \<and> (build_lot_compositions rnd uuid table lot_ids effective_at action_id = Inr lot_compositions
       \<and> map_of lot_compositions l = Some c' \<longrightarrow> within_tolerance rnd c')
   \<and> (calculate_composition rnd uuid db lot_id effective_at action_id = Inr c'' \<longrightarrow>
        within_tolerance rnd c'')
   \<and> (rounds_within \<rho> rnd' \<and> event_type (event_data created) = CREATED
       \<and> near_one \<rho> k (dict_of_components (event_components (event_data created)) [])
       \<and> \<rho> ^ (k + length (dict_of_components (event_components (event_data created)) []))
           < 10001 / 10000 \<longrightarrow>
        (\<exists>lots'. composition_step rnd' uuid (lcs_c, lots_c) created
           = Inr (AList.update (aggregate_id created)
                    (Composition (dict_of_components (event_components (event_data created)) []))
                    lcs_c,
                  lots')))
   \<and> (rounds_within \<rho> rnd' \<and> event_type (event_data event) = VOLUME_BLENDED
       \<and> map_of lots (aggregate_id event) = Some lot \<and> 0 \<le> volume lot
       \<and> map_of lcs (aggregate_id event) = Some existing
       \<and> near_one \<rho> k (components existing)
       \<and> (\<forall>(l, b) \<in> set (event_volumes (event_data event)). 0 \<le> b \<and>
             (0 < b \<longrightarrow> (\<exists>c. map_of lcs l = Some c \<and> near_one \<rho> k (components c))))
       \<and> 0 < volume lot + sum_list (map snd (event_volumes (event_data event)))
       \<and> \<rho> ^ (k + 2 * (length (components existing)
                            + source_terms lcs (event_volumes (event_data event)))
                   + length (event_volumes (event_data event)) + 3) < 10001 / 10000 \<longrightarrow>
        (\<exists>c lots'. composition_step rnd' uuid (lcs, lots) event
             = Inr (AList.update (aggregate_id event) c lcs, lots')
           \<and> near_one \<rho> (k + length (components existing)
                             + source_terms lcs (event_volumes (event_data event))
                             + length (event_volumes (event_data event)) + 3) (components c)
           \<and> within_tolerance rnd' c))"
proof (intro conjI impI)
  assume "new_Composition rnd cs = Inr c"
  then show "within_tolerance rnd c" by (rule new_Composition_valid)
next
  assume a: "build_lot_compositions rnd uuid table lot_ids effective_at action_id = Inr lot_compositions
       \<and> map_of lot_compositions l = Some c'"
  then obtain lots1 where fold: "composition_fold rnd uuid ([], [])
      (relevant_events table lot_ids effective_at action_id) = Inr (lot_compositions, lots1)"
    by (auto simp: build_lot_compositions_def split: sum.splits)
  show "within_tolerance rnd c'"
    by (rule composition_fold_valid [OF fold, of l]) (use a in simp_all)
next
  assume a: "calculate_composition rnd uuid db lot_id effective_at action_id = Inr c''"
  then obtain ids eff lcs1 where
    b: "build_lot_compositions rnd uuid (wine_lot_events db) ids eff action_id = Inr lcs1"
    and m: "map_of lcs1 lot_id = Some c''"
    by (auto simp: calculate_composition_def Let_def split: if_splits sum.splits option.splits)
  from b obtain lots1 where fold: "composition_fold rnd uuid ([], [])
      (relevant_events (wine_lot_events db) ids eff action_id) = Inr (lcs1, lots1)"
    by (auto simp: build_lot_compositions_def split: sum.splits)
  show "within_tolerance rnd c''"
    by (rule composition_fold_valid [OF fold, of lot_id]) (use m in simp_all)
next
  assume a: "rounds_within \<rho> rnd' \<and> event_type (event_data created) = CREATED
       \<and> near_one \<rho> k (dict_of_components (event_components (event_data created)) [])
       \<and> \<rho> ^ (k + length (dict_of_components (event_components (event_data created)) []))
           < 10001 / 10000"
  show "\<exists>lots'. composition_step rnd' uuid (lcs_c, lots_c) created
           = Inr (AList.update (aggregate_id created)
                    (Composition (dict_of_components (event_components (event_data created)) []))
                    lcs_c,
                  lots')"
    by (rule created_step_conserves [of \<rho> rnd' created k]) (use a in simp_all)
next
  assume a: "rounds_within \<rho> rnd' \<and> event_type (event_data event) = VOLUME_BLENDED
       \<and> map_of lots (aggregate_id event) = Some lot \<and> 0 \<le> volume lot
       \<and> map_of lcs (aggregate_id event) = Some existing
       \<and> near_one \<rho> k (components existing)
       \<and> (\<forall>(l, b) \<in> set (event_volumes (event_data event)). 0 \<le> b \<and>
             (0 < b \<longrightarrow> (\<exists>c. map_of lcs l = Some c \<and> near_one \<rho> k (components c))))
       \<and> 0 < volume lot + sum_list (map snd (event_volumes (event_data event)))
       \<and> \<rho> ^ (k + 2 * (length (components existing)
                            + source_terms lcs (event_volumes (event_data event)))
                   + length (event_volumes (event_data event)) + 3) < 10001 / 10000"
  show "\<exists>c lots'. composition_step rnd' uuid (lcs, lots) event
             = Inr (AList.update (aggregate_id event) c lcs, lots')
           \<and> near_one \<rho> (k + length (components existing)
                             + source_terms lcs (event_volumes (event_data event))
                             + length (event_volumes (event_data event)) + 3) (components c)
           \<and> within_tolerance rnd' c"
    by (rule blended_step_conserves [of \<rho> rnd' event lots lot lcs existing k])
       (use a in simp_all)
qed

theorem compositions_within_tolerance_witness:
  "build_lot_compositions exact no_uuid example_events {''A'', ''B''} None None
     = Inr [(''A'', Composition [(vintage_2022, 1 / 2), (vintage_2023, 1 / 2)]),
            (''B'', Composition [(vintage_2023, 1)])]
   \<and> within_tolerance exact (Composition [(vintage_2022, 1 / 2), (vintage_2023, 1 / 2)])
   \<and> (\<exists>lots'. composition_step worst_rounding no_uuid ([], []) (example_events ! 0)
         = Inr ([(''A'', Composition [(vintage_2022, 1)])], lots'))
   \<and> (\<exists>c lots'. composition_step worst_rounding no_uuid
                    (compositions_before_blend, lots_before_blend) (example_events ! 5)
         = Inr (AList.update ''A'' c compositions_before_blend, lots')
       \<and> near_one (1 + 1 / 10 ^ 27) 6 (components c)
       \<and> within_tolerance worst_rounding c)"
proof -
  let ?c = "Composition [(vintage_2022, 1 / 2), (vintage_2023, 1 / 2)]"
  let ?lcs = "[(''A'', ?c), (''B'', Composition [(vintage_2023, 1)])]"
  let ?rho = "1 + 1 / 10 ^ 27 :: rat"
  let ?created = "example_events ! 0"
  let ?event = "example_events ! 5"
  let ?lot = "new_WineLot\<lparr>pk := ''A'', code := ''CC-REC-1'', volume := 5\<rparr>"
  let ?existing = "Composition [(vintage_2022, 1)]"
  have built: "build_lot_compositions exact no_uuid example_events {''A'', ''B''} None None = Inr ?lcs"
    by (simp add: eval_defs)
  have found: "map_of ?lcs ''A'' = Some ?c"
    by simp
  have created: "event_type (event_data ?created) = CREATED"
    and comps: "dict_of_components (event_components (event_data ?created)) [] = [(vintage_2022, 1)]"
    and cid: "aggregate_id ?created = ''A''"
    by (simp_all add: eval_defs)
  have one: "near_one ?rho 0 [(vintage_2022, 1)]"
    by (simp add: near_one_def nonnegative_def approx_def)
  have one': "near_one ?rho 0 [(vintage_2023, 1)]"
    by (simp add: near_one_def nonnegative_def approx_def)
  have budget1: "?rho ^ (0 + length [(vintage_2022, 1 :: rat)]) < 10001 / 10000"
    by simp
  have blended: "event_type (event_data ?event) = VOLUME_BLENDED"
    and vols: "event_volumes (event_data ?event) = [(''B'', 5)]"
    and eid: "aggregate_id ?event = ''A''"
    by (simp_all add: eval_defs)
  have lot: "map_of lots_before_blend ''A'' = Some ?lot" "0 \<le> volume ?lot"
    "0 < volume ?lot + sum_list (map snd [(''B'', 5 :: rat)])"
    by (simp_all add: eval_defs)
  have existing: "map_of compositions_before_blend ''A'' = Some ?existing"
    by (simp add: eval_defs)
  have sources: "\<forall>(l, b) \<in> set [(''B'', 5 :: rat)]. 0 \<le> b \<and>
             (0 < b \<longrightarrow> (\<exists>c. map_of compositions_before_blend l = Some c
                              \<and> near_one ?rho 0 (components c)))"
    using one' by (simp add: eval_defs)
  have terms: "source_terms compositions_before_blend [(''B'', 5)] = 1"
    by (simp add: source_terms_def eval_defs)
  have budget2: "?rho ^ (0 + 2 * (length (components ?existing)
                            + source_terms compositions_before_blend [(''B'', 5)])
                   + length [(''B'', 5 :: rat)] + 3) < 10001 / 10000"
    unfolding terms by (simp add: power_divide)
  note t = compositions_within_tolerance
    [where rnd = exact and lot_compositions = ?lcs and l = "''A''" and c' = ?c
       and uuid = no_uuid and table = example_events and lot_ids = "{''A'', ''B''}"
       and effective_at = None and action_id = None
       and \<rho> = ?rho and rnd' = worst_rounding and k = 0 and created = ?created
       and lcs_c = "[]" and lots_c = "[]"
       and event = ?event and lcs = compositions_before_blend and lots = lots_before_blend
       and lot = ?lot and existing = ?existing]
  from t built found have w1: "within_tolerance exact ?c" by blast
  from t have "rounds_within ?rho worst_rounding \<and> event_type (event_data ?created) = CREATED
       \<and> near_one ?rho 0 (dict_of_components (event_components (event_data ?created)) [])
       \<and> ?rho ^ (0 + length (dict_of_components (event_components (event_data ?created)) []))
           < 10001 / 10000 \<longrightarrow>
        (\<exists>lots'. composition_step worst_rounding no_uuid ([], []) ?created
           = Inr (AList.update (aggregate_id ?created)
                    (Composition (dict_of_components (event_components (event_data ?created)) []))
                    [],
                  lots'))"
    by blast
  with worst_rounding_within created one budget1
  have w2: "\<exists>lots'. composition_step worst_rounding no_uuid ([], []) ?created
           = Inr ([(''A'', Composition [(vintage_2022, 1)])], lots')"
    unfolding comps cid by simp
  from t have "rounds_within ?rho worst_rounding \<and> event_type (event_data ?event) = VOLUME_BLENDED
       \<and> map_of lots_before_blend (aggregate_id ?event) = Some ?lot \<and> 0 \<le> volume ?lot
       \<and> map_of compositions_before_blend (aggregate_id ?event) = Some ?existing
       \<and> near_one ?rho 0 (components ?existing)
       \<and> (\<forall>(l, b) \<in> set (event_volumes (event_data ?event)). 0 \<le> b \<and>
             (0 < b \<longrightarrow> (\<exists>c. map_of compositions_before_blend l = Some c
                              \<and> near_one ?rho 0 (components c))))
       \<and> 0 < volume ?lot + sum_list (map snd (event_volumes (event_data ?event)))
       \<and> ?rho ^ (0 + 2 * (length (components ?existing)
                            + source_terms compositions_before_blend (event_volumes (event_data ?event)))
                   + length (event_volumes (event_data ?event)) + 3) < 10001 / 10000 \<longrightarrow>
        (\<exists>c lots'. composition_step worst_rounding no_uuid
                      (compositions_before_blend, lots_before_blend) ?event
             = Inr (AList.update (aggregate_id ?event) c compositions_before_blend, lots')
           \<and> near_one ?rho (0 + length (components ?existing)
                             + source_terms compositions_before_blend (event_volumes (event_data ?event))
                             + length (event_volumes (event_data ?event)) + 3) (components c)
           \<and> within_tolerance worst_rounding c)"
    by blast
  with worst_rounding_within blended lot existing one sources budget2
  have w3: "\<exists>c lots'. composition_step worst_rounding no_uuid
                    (compositions_before_blend, lots_before_blend) ?event
         = Inr (AList.update ''A'' c compositions_before_blend, lots')
       \<and> near_one ?rho 6 (components c)
       \<and> within_tolerance worst_rounding c"
    unfolding vols eid terms by simp
  from built w1 w2 w3 show ?thesis by blast
qed

section \<open>The blend step\<close>

lemma add_components_plus:
  "add_components rnd w cs acc = plus_components rnd acc (scaled rnd w cs)"
  by (induction cs arbitrary: acc) (auto simp: scaled_def)

lemma add_blends_plus:
  "add_blends rnd V_new lcs volumes acc = Inr res \<Longrightarrow>
     res = plus_sources rnd V_new lcs (positive_sources volumes) acc"
proof (induction volumes arbitrary: acc)
  case Nil
  then show ?case by (simp add: positive_sources_def)
next
  case (Cons x volumes)
  obtain l b where x: "x = (l, b)" by (cases x)
  show ?case
  proof (cases "b \<le> 0")
    case True
    with Cons.prems x have "add_blends rnd V_new lcs volumes acc = Inr res" by simp
    from Cons.IH [OF this] True x show ?thesis by (simp add: positive_sources_def)
  next
    case False
    with Cons.prems x obtain w bc where w: "dec_div rnd b V_new = Inr w"
      and bc: "map_of lcs l = Some bc"
      and rest: "add_blends rnd V_new lcs volumes (add_components rnd w (components bc) acc) = Inr res"
      by (auto split: sum.splits option.splits)
    from w have w': "w = rnd (b / V_new)"
      by (auto simp: dec_div_def split: if_splits)
    from bc have bc': "dict_get lcs l (Composition []) = bc"
      by (simp add: dict_get_def)
    from Cons.IH [OF rest] False x w' bc' show ?thesis
      by (simp add: positive_sources_def add_components_plus)
  qed
qed

lemma blend_composition_result:
  assumes "blend_composition rnd V_old existing lcs volumes = Inr c"
  shows "c = Composition
           (if 0 < V_old then claimed_blend rnd V_old existing lcs volumes
            else plus_sources rnd (new_total_volume_of rnd V_old volumes) lcs
                   (positive_sources volumes) [])"
proof -
  let ?V = "new_total_volume_of rnd V_old volumes"
  from assms obtain ex new where ex: "existing_contribution rnd V_old ?V existing = Inr ex"
    and new: "add_blends rnd ?V lcs volumes ex = Inr new"
    and c: "new_Composition rnd new = Inr c"
    by (auto simp: blend_composition_def new_total_volume_of_def Let_def split: sum.splits)
  from ex have ex': "ex = (if 0 < V_old
      then plus_components rnd [] (scaled rnd (rnd (V_old / ?V)) (components existing)) else [])"
    by (auto simp: existing_contribution_def dec_div_def add_components_plus
        split: if_splits sum.splits)
  from c have "c = Composition new"
    by (auto simp: new_Composition_def split: if_splits)
  with add_blends_plus [OF new] ex' show ?thesis
    by (simp add: claimed_blend_def)
qed

text \<open>
  Claim C6 as the code has it.  A pass of the fold that succeeds on a \<^verbatim>\<open>VolumeBlended\<close>
  event, for a lot with prior volume \<open>V_old\<close> and \<open>V_new = V_old + \<Sum> volumes\<close>, replaces
  that lot's composition: when \<open>V_old\<close> is positive, with the existing composition scaled
  by \<open>V_old / V_new\<close> plus, for each source lot whose blend volume is positive, that
  source lot's current composition scaled by \<open>blend_volume / V_new\<close>; when \<open>V_old\<close> is
  not positive, with the scaled compositions of the positive sources alone.  A pass that
  succeeds on an event that is neither \<^verbatim>\<open>Created\<close> nor \<^verbatim>\<open>VolumeBlended\<close> leaves the
  compositions unchanged.
\<close>

theorem blend_step:
  assumes "composition_step rnd uuid (lot_compositions, lots) event = Inr (lot_compositions', lots')"
  shows "(event_type (event_data event) = VOLUME_BLENDED \<longrightarrow>
           (\<exists>lot existing.
              map_of lots (aggregate_id event) = Some lot
              \<and> map_of lot_compositions (aggregate_id event) = Some existing
              \<and> lot_compositions' =
                  AList.update (aggregate_id event)
                    (Composition
                       (if 0 < volume lot
                        then claimed_blend rnd (volume lot) existing lot_compositions
                               (event_volumes (event_data event))
                        else plus_sources rnd
                               (new_total_volume_of rnd (volume lot)
                                  (event_volumes (event_data event)))
                               lot_compositions
                               (positive_sources (event_volumes (event_data event))) []))
                    lot_compositions))
       \<and> (event_type (event_data event) \<noteq> CREATED \<and> event_type (event_data event) \<noteq> VOLUME_BLENDED
            \<longrightarrow> lot_compositions' = lot_compositions)"
proof (intro conjI impI)
  assume b: "event_type (event_data event) = VOLUME_BLENDED"
  from composition_step_blended [OF assms b] obtain lot :: wine_lot and existing c0 where
    lot: "map_of lots (aggregate_id event) = Some lot"
    and ex: "map_of lot_compositions (aggregate_id event) = Some existing"
    and c0: "blend_composition rnd (volume lot) existing lot_compositions
               (event_volumes (event_data event)) = Inr c0"
    and upd: "lot_compositions' = AList.update (aggregate_id event) c0 lot_compositions"
    by blast
  note g = blend_composition_result [OF c0]
  show "\<exists>lot existing.
              map_of lots (aggregate_id event) = Some lot
              \<and> map_of lot_compositions (aggregate_id event) = Some existing
              \<and> lot_compositions' =
                  AList.update (aggregate_id event)
                    (Composition
                       (if 0 < volume lot
                        then claimed_blend rnd (volume lot) existing lot_compositions
                               (event_volumes (event_data event))
                        else plus_sources rnd
                               (new_total_volume_of rnd (volume lot)
                                  (event_volumes (event_data event)))
                               lot_compositions
                               (positive_sources (event_volumes (event_data event))) []))
                    lot_compositions"
    using lot ex upd g by (intro exI [of _ lot] exI [of _ existing]) simp
next
  assume "event_type (event_data event) \<noteq> CREATED \<and> event_type (event_data event) \<noteq> VOLUME_BLENDED"
  with composition_step_other [OF assms] show "lot_compositions' = lot_compositions" by simp
qed

lemma blend_step_example:
  "composition_step exact no_uuid (compositions_before_blend, lots_before_blend) (example_events ! 5)
     = Inr ([(''A'', Composition [(vintage_2022, 1 / 2), (vintage_2023, 1 / 2)]),
             (''B'', Composition [(vintage_2023, 1)])],
            [(''A'', new_WineLot\<lparr>pk := ''A'', code := ''CC-REC-1'', volume := 10\<rparr>),
             (''B'', new_WineLot\<lparr>pk := ''B'', code := ''CC-BLD-1'', volume := 5\<rparr>)])"
  by (simp add: eval_defs)

lemma receive_step_example:
  "composition_step exact no_uuid (compositions_before_blend, lots_before_blend) (example_events ! 2)
     = Inr (compositions_before_blend,
            [(''A'', new_WineLot\<lparr>pk := ''A'', code := ''CC-REC-1'', volume := 10\<rparr>),
             (''B'', new_WineLot\<lparr>pk := ''B'', code := ''CC-BLD-1'', volume := 5\<rparr>)])"
  by (simp add: eval_defs)

theorem blend_step_witness:
  "composition_fold exact no_uuid ([], []) (take 5 (default_ordering example_events))
     = Inr (compositions_before_blend, lots_before_blend)
   \<and> composition_step exact no_uuid (compositions_before_blend, lots_before_blend) (example_events ! 5)
     = Inr (AList.update ''A''
              (Composition (claimed_blend exact 5 (Composition [(vintage_2022, 1)])
                              compositions_before_blend [(''B'', 5)]))
              compositions_before_blend,
            [(''A'', new_WineLot\<lparr>pk := ''A'', code := ''CC-REC-1'', volume := 10\<rparr>),
             (''B'', new_WineLot\<lparr>pk := ''B'', code := ''CC-BLD-1'', volume := 5\<rparr>)])
   \<and> claimed_blend exact 5 (Composition [(vintage_2022, 1)]) compositions_before_blend [(''B'', 5)]
     = [(vintage_2022, 1 / 2), (vintage_2023, 1 / 2)]
   \<and> composition_step exact no_uuid (compositions_before_blend, lots_before_blend) (example_events ! 2)
     = Inr (compositions_before_blend,
            [(''A'', new_WineLot\<lparr>pk := ''A'', code := ''CC-REC-1'', volume := 10\<rparr>),
             (''B'', new_WineLot\<lparr>pk := ''B'', code := ''CC-BLD-1'', volume := 5\<rparr>)])"
proof -
  have before: "composition_fold exact no_uuid ([], []) (take 5 (default_ordering example_events))
     = Inr (compositions_before_blend, lots_before_blend)"
    by (simp add: eval_defs)
  have blended: "event_type (event_data (example_events ! 5)) = VOLUME_BLENDED"
    and received: "event_type (event_data (example_events ! 2)) \<noteq> CREATED
                   \<and> event_type (event_data (example_events ! 2)) \<noteq> VOLUME_BLENDED"
    by (simp_all add: eval_defs)
  have claimed: "claimed_blend exact 5 (Composition [(vintage_2022, 1)]) compositions_before_blend
                   [(''B'', 5)] = [(vintage_2022, 1 / 2), (vintage_2023, 1 / 2)]"
    by (simp add: eval_defs)
  from blend_step [OF blend_step_example] blended
  obtain lot :: wine_lot and existing where
    "map_of lots_before_blend (aggregate_id (example_events ! 5)) = Some lot"
    and "map_of compositions_before_blend (aggregate_id (example_events ! 5)) = Some existing"
    and upd: "[(''A'', Composition [(vintage_2022, 1 / 2), (vintage_2023, 1 / 2)]),
               (''B'', Composition [(vintage_2023, 1)])] =
                  AList.update (aggregate_id (example_events ! 5))
                    (Composition
                       (if 0 < volume lot
                        then claimed_blend exact (volume lot) existing compositions_before_blend
                               (event_volumes (event_data (example_events ! 5)))
                        else plus_sources exact
                               (new_total_volume_of exact (volume lot)
                                  (event_volumes (event_data (example_events ! 5))))
                               compositions_before_blend
                               (positive_sources (event_volumes (event_data (example_events ! 5)))) []))
                    compositions_before_blend"
    by blast
  then have "lot = new_WineLot\<lparr>pk := ''A'', code := ''CC-REC-1'', volume := 5\<rparr>"
    and "existing = Composition [(vintage_2022, 1)]"
    by (simp_all add: eval_defs)
  with upd have step: "[(''A'', Composition [(vintage_2022, 1 / 2), (vintage_2023, 1 / 2)]),
               (''B'', Composition [(vintage_2023, 1)])] =
       AList.update ''A''
         (Composition (claimed_blend exact 5 (Composition [(vintage_2022, 1)])
                         compositions_before_blend [(''B'', 5)]))
         compositions_before_blend"
    by (simp add: example_events_def example_history_def)
  from blend_step [OF receive_step_example] received
  have "compositions_before_blend = compositions_before_blend" by blast
  with before blend_step_example receive_step_example step claimed show ?thesis by simp
qed

text \<open>
  Claim C6 as stated (the existing composition always enters scaled by \<open>V_old / V_new\<close>)
  fails where the prior volume is not positive: the code adds the existing composition
  only \<^verbatim>\<open>if lot_volume > 0\<close>.  Lot \<open>A\<close> of vintage 2022 has received the volume -0.01
  when 1000 of lot \<open>B\<close> of vintage 2023 is blended into it: the fold gives \<open>A\<close> the
  composition 2023: 100000/99999, whereas the claimed blend is
  2022: -1/99999, 2023: 100000/99999.
\<close>

theorem blend_step_counterexample:
  "build_lot_compositions exact no_uuid (store 0 1 negative_history) {''A'', ''B''} None None
     = Inr [(''A'', Composition [(vintage_2023, 100000 / 99999)]),
            (''B'', Composition [(vintage_2023, 1)])]
   \<and> claimed_blend exact (- 1 / 100) (Composition [(vintage_2022, 1)]) compositions_before_blend
        [(''B'', 1000)]
     = [(vintage_2022, - 1 / 99999), (vintage_2023, 100000 / 99999)]"
  by (simp add: eval_defs)

section \<open>Rebuilding aggregates at the point of an edit\<close>

lemma aggregates_by_id_of_other:
  "k \<notin> pk ` set aggs \<Longrightarrow> map_of (aggregates_by_id_of aggs d) k = map_of d k"
  by (induction aggs arbitrary: d) (auto simp: update_conv')

lemma aggregates_by_id_of_member:
  "distinct (map pk aggs) \<Longrightarrow> agg \<in> set aggs \<Longrightarrow>
     map_of (aggregates_by_id_of aggs d) (pk agg) = Some (seed agg)"
proof (induction aggs arbitrary: d)
  case Nil
  then show ?case by simp
next
  case (Cons a aggs)
  show ?case
  proof (cases "agg = a")
    case True
    from Cons.prems(1) have "pk a \<notin> pk ` set aggs" by auto
    from aggregates_by_id_of_other [OF this] True show ?thesis
      by (simp add: update_conv' seed_def)
  next
    case False
    with Cons.prems have "distinct (map pk aggs)" "agg \<in> set aggs" by auto
    from Cons.IH [OF this] show ?thesis by simp
  qed
qed

lemma aggregates_by_id_of_keys:
  "fst ` set (aggregates_by_id_of aggs d) = fst ` set d \<union> pk ` set aggs"
  by (induction aggs arbitrary: d) (auto simp: dom_update)

lemma rebuild_editable_result:
  "rebuild_editable rnd uuid s rows d repo rb = Inr (d', repo', rb') \<Longrightarrow>
     fst ` set d' = fst ` set d
     \<and> rb' = rb \<union> aggregate_id ` {r \<in> set rows. sequence_number r \<noteq> Some s}
     \<and> dd_get (repo_deleted_event_models repo') WineLotEventStore
         = dd_get (repo_deleted_event_models repo) WineLotEventStore
           @ filter (\<lambda>r. sequence_number r = Some s) rows
     \<and> (\<forall>k a. map_of d k = Some a \<longrightarrow>
          (\<exists>a'. load_all rnd a
                  (with_uuid uuid
                     (filter (\<lambda>r. aggregate_id r = k \<and> sequence_number r \<noteq> Some s) rows)) = Inr a'
              \<and> map_of d' k = Some a'))"
proof (induction rows arbitrary: d repo rb)
  case Nil
  then show ?case by (simp add: with_uuid_def)
next
  case (Cons event rows)
  from Cons.prems obtain aggregate where agg: "map_of d (aggregate_id event) = Some aggregate"
    by (cases "map_of d (aggregate_id event)") auto
  show ?case
  proof (cases "sequence_number event = Some s")
    case True
    with Cons.prems agg have rest: "rebuild_editable rnd uuid s rows d
        (mark_aggregate_event_edited repo aggregate event) rb = Inr (d', repo', rb')"
      by simp
    have del: "dd_get (repo_deleted_event_models (mark_aggregate_event_edited repo aggregate event))
                 WineLotEventStore
               = dd_get (repo_deleted_event_models repo) WineLotEventStore @ [event]"
      by (simp add: mark_aggregate_event_edited_def Let_def dd_get_def dd_extend_def update_conv')
    from Cons.IH [OF rest] True del show ?thesis
      by (auto simp: with_uuid_def)
  next
    case False
    with Cons.prems agg obtain aggregate' where
      l: "load rnd (uuid event) aggregate (event_data event) = Inr aggregate'"
      and rest: "rebuild_editable rnd uuid s rows (AList.update (aggregate_id event) aggregate' d)
                   repo (insert (aggregate_id event) rb) = Inr (d', repo', rb')"
      by (auto split: sum.splits)
    note ih = Cons.IH [OF rest]
    have keys: "fst ` set d' = fst ` set d"
    proof -
      from agg have "(aggregate_id event, aggregate) \<in> set d"
        by (rule map_of_SomeD)
      then have "aggregate_id event \<in> fst ` set d"
        by (rule rev_image_eqI) simp
      with ih show ?thesis by (auto simp: dom_update)
    qed
    have rb: "rb' = rb \<union> aggregate_id ` {r \<in> set (event # rows). sequence_number r \<noteq> Some s}"
      using ih False by auto
    have del: "dd_get (repo_deleted_event_models repo') WineLotEventStore
         = dd_get (repo_deleted_event_models repo) WineLotEventStore
           @ filter (\<lambda>r. sequence_number r = Some s) (event # rows)"
      using ih False by simp
    have fold: "\<forall>k a. map_of d k = Some a \<longrightarrow>
          (\<exists>a'. load_all rnd a
                  (with_uuid uuid
                     (filter (\<lambda>r. aggregate_id r = k \<and> sequence_number r \<noteq> Some s) (event # rows)))
                  = Inr a'
              \<and> map_of d' k = Some a')"
    proof (intro allI impI)
      fix k a
      assume ka: "map_of d k = Some a"
      show "\<exists>a'. load_all rnd a
                  (with_uuid uuid
                     (filter (\<lambda>r. aggregate_id r = k \<and> sequence_number r \<noteq> Some s) (event # rows)))
                  = Inr a'
              \<and> map_of d' k = Some a'"
      proof (cases "k = aggregate_id event")
        case True
        with ka agg have "a = aggregate" by simp
        moreover have upd: "map_of (AList.update (aggregate_id event) aggregate' d) k = Some aggregate'"
          using True by (simp add: update_conv')
        from ih have all: "\<forall>k a. map_of (AList.update (aggregate_id event) aggregate' d) k = Some a \<longrightarrow>
          (\<exists>a'. load_all rnd a
                  (with_uuid uuid
                     (filter (\<lambda>r. aggregate_id r = k \<and> sequence_number r \<noteq> Some s) rows)) = Inr a'
              \<and> map_of d' k = Some a')"
          by blast
        from all upd obtain a' where
          "load_all rnd aggregate'
                  (with_uuid uuid
                     (filter (\<lambda>r. aggregate_id r = k \<and> sequence_number r \<noteq> Some s) rows)) = Inr a'"
          "map_of d' k = Some a'"
          by blast
        ultimately show ?thesis using True False l by (auto simp: with_uuid_def)
      next
        case other: False
        with ka have "map_of (AList.update (aggregate_id event) aggregate' d) k = Some a"
          by (simp add: update_conv')
        moreover from ih have all: "\<forall>k a. map_of (AList.update (aggregate_id event) aggregate' d) k = Some a \<longrightarrow>
          (\<exists>a'. load_all rnd a
                  (with_uuid uuid
                     (filter (\<lambda>r. aggregate_id r = k \<and> sequence_number r \<noteq> Some s) rows)) = Inr a'
              \<and> map_of d' k = Some a')"
          by blast
        ultimately obtain a' where
          "load_all rnd a
                  (with_uuid uuid
                     (filter (\<lambda>r. aggregate_id r = k \<and> sequence_number r \<noteq> Some s) rows)) = Inr a'"
          "map_of d' k = Some a'"
          by blast
        then show ?thesis using other by (auto simp: with_uuid_def)
      qed
    qed
    from keys rb del fold show ?thesis by blast
  qed
qed

lemma load_initial_events_other:
  "load_initial_events rnd uuid rows d = Inr d' \<Longrightarrow> k \<notin> aggregate_id ` set rows \<Longrightarrow>
     map_of d' k = map_of d k"
proof (induction rows arbitrary: d)
  case Nil
  then show ?case by simp
next
  case (Cons event rows)
  from Cons.prems(1) obtain aggregate aggregate' where
    "map_of d (aggregate_id event) = Some aggregate"
    and rest: "load_initial_events rnd uuid rows
                 (AList.update (aggregate_id event) (mark_for_backdating aggregate') d) = Inr d'"
    by (auto split: option.splits sum.splits)
  from Cons.IH [OF rest] Cons.prems(2) show ?case
    by (simp add: update_conv')
qed

lemma set_distinct_on_aggregate_id: "set (distinct_on_aggregate_id rows) \<subseteq> set rows"
  by (induction rows rule: distinct_on_aggregate_id.induct) auto

lemma initial_events_before_ids:
  "aggregate_id ` set (initial_events_before table ids s) \<subseteq> ids"
  using set_distinct_on_aggregate_id
  by (fastforce simp: initial_events_before_def)

lemma events_after_and_including_keys:
  "set keys = set keys' \<Longrightarrow>
     events_after_and_including table keys t s = events_after_and_including table keys' t s"
  by (simp add: events_after_and_including_def)

lemma folded_events_alt:
  "k \<in> set keys \<Longrightarrow>
     folded_events table keys t s k =
       default_ordering
         (filter (\<lambda>r. aggregate_id r = k \<and> events_after_and_including_filter t s r
                       \<and> sequence_number r \<noteq> Some s) table)"
proof -
  assume k: "k \<in> set keys"
  have "filter (\<lambda>r. aggregate_id r = k \<and> sequence_number r \<noteq> Some s)
          (filter (\<lambda>r. aggregate_id r \<in> set keys \<and> events_after_and_including_filter t s r) table)
        = filter (\<lambda>r. aggregate_id r = k \<and> events_after_and_including_filter t s r
                       \<and> sequence_number r \<noteq> Some s) table"
    using k by (auto intro: filter_cong)
  then show ?thesis
    by (simp add: folded_events_def events_after_and_including_def default_ordering_def filter_sort)
qed

text \<open>
  Claim C3 as the code has it.  For the persisted aggregates among the inputs (the
  inputs having distinct ids): the events of the window, \<^verbatim>\<open>occurred_at < t\<close> or
  \<^verbatim>\<open>occurred_at = t\<close> with a sequence number at most \<open>s\<close>, whose sequence number equals
  \<open>s\<close> are queued with the repository for deletion, in the canonical order, and are not
  loaded; the events of the window that belong to the aggregate and whose sequence number
  differs from \<open>s\<close> are its stored events that satisfy the window's filter and differ from
  \<open>s\<close>, in the canonical order; folding them via \<^verbatim>\<open>load\<close> onto the identity succeeds, and
  when there is at least one of them the result is the state returned for the aggregate.
\<close>

theorem load_editable_at_time_and_point_result:
  assumes res: "load_editable_aggregates_at_time_and_point rnd uuid table repo aggregates t s
                  = Inr (d, repo')"
    and dis: "distinct (map pk aggregates)" and mem: "agg \<in> set aggregates"
    and pers: "\<not> adding agg"
  shows "dd_get (repo_deleted_event_models repo') WineLotEventStore
           = dd_get (repo_deleted_event_models repo) WineLotEventStore
             @ edited_events table (map pk aggregates) t s
       \<and> folded_events table (map pk aggregates) t s (pk agg)
           = default_ordering
               (filter (\<lambda>r. aggregate_id r = pk agg \<and> events_after_and_including_filter t s r
                             \<and> sequence_number r \<noteq> Some s) table)
       \<and> (folded_events table (map pk aggregates) t s (pk agg) \<noteq> [] \<longrightarrow>
            (\<exists>a'. load_all rnd (identity agg)
                     (with_uuid uuid (folded_events table (map pk aggregates) t s (pk agg))) = Inr a'
                \<and> map_of d (pk agg) = Some a'))"
proof -
  let ?d0 = "aggregates_by_id_of aggregates []"
  let ?window = "events_after_and_including table (map pk aggregates) t s"
  have seeded: "map_of ?d0 (pk agg) = Some (identity agg)"
    using aggregates_by_id_of_member [OF dis mem, of "[]"] pers by (simp add: seed_def)
  then have nonempty: "?d0 \<noteq> []" by auto
  have "set (map fst ?d0) = set (map pk aggregates)"
    using aggregates_by_id_of_keys [of aggregates "[]"] by simp
  then have window: "events_after_and_including table (map fst ?d0) t s = ?window"
    by (rule events_after_and_including_keys)
  from res nonempty window obtain d1 rb where
    rebuilt: "rebuild_editable rnd uuid s ?window ?d0 repo {} = Inr (d1, repo', rb)"
    and initial: "load_initial_events rnd uuid
                    (initial_events_before table (set (map fst d1) - rb) s) d1 = Inr d"
    by (auto simp: load_editable_aggregates_at_time_and_point_def Let_def
        split: sum.splits prod.splits)
  note r = rebuild_editable_result [OF rebuilt]
  have del: "dd_get (repo_deleted_event_models repo') WineLotEventStore
           = dd_get (repo_deleted_event_models repo) WineLotEventStore
             @ edited_events table (map pk aggregates) t s"
    using r by (simp add: edited_events_def)
  have alt: "folded_events table (map pk aggregates) t s (pk agg)
           = default_ordering
               (filter (\<lambda>r. aggregate_id r = pk agg \<and> events_after_and_including_filter t s r
                             \<and> sequence_number r \<noteq> Some s) table)"
    using mem by (intro folded_events_alt) simp
  from r seeded obtain a1 where
    a1: "load_all rnd (identity agg)
           (with_uuid uuid (folded_events table (map pk aggregates) t s (pk agg))) = Inr a1"
    and d1: "map_of d1 (pk agg) = Some a1"
    unfolding folded_events_def by blast
  have kept: "folded_events table (map pk aggregates) t s (pk agg) \<noteq> [] \<longrightarrow>
                map_of d (pk agg) = Some a1"
  proof
    assume "folded_events table (map pk aggregates) t s (pk agg) \<noteq> []"
    then obtain r0 where "r0 \<in> set (folded_events table (map pk aggregates) t s (pk agg))"
      by (cases "folded_events table (map pk aggregates) t s (pk agg)") auto
    then have "r0 \<in> set ?window" "aggregate_id r0 = pk agg" "sequence_number r0 \<noteq> Some s"
      by (auto simp: folded_events_def)
    then have "pk agg \<in> aggregate_id ` {r \<in> set ?window. sequence_number r \<noteq> Some s}"
      by (intro image_eqI [of _ _ r0]) simp_all
    with r have "pk agg \<in> rb" by simp
    then have "pk agg \<notin> aggregate_id `
                 set (initial_events_before table (set (map fst d1) - rb) s)"
      using initial_events_before_ids [of table "set (map fst d1) - rb" s] by auto
    from load_initial_events_other [OF initial this] d1
    show "map_of d (pk agg) = Some a1" by simp
  qed
  from del alt a1 kept show ?thesis by blast
qed

lemma load_editable_example:
  "load_editable_aggregates_at_time_and_point exact no_uuid example_events clear
     [example_lot, example_lot_b] 20000000 ''X3''
   = Inr ([(''A'', (identity example_lot)\<lparr>code := ''CC-REC-1'', volume := 5\<rparr>),
           (''B'', (identity example_lot_b)\<lparr>code := ''CC-BLD-1'', volume := 10\<rparr>)],
          clear\<lparr>repo_new_aggregate_events := [(''B'', []), (''A'', [])],
                repo_deleted_event_models :=
                  [(WineLotEventStore, [example_events ! 4, example_events ! 5])]\<rparr>)"
  by (simp add: load_editable_aggregates_at_time_and_point_def eval_defs
      identity_def mark_for_backdating_def events_after_and_including_def
      events_after_and_including_filter_def initial_events_before_def
      mark_aggregate_event_edited_def dd_extend_def dd_get_def clear_def)

theorem load_editable_at_time_and_point_witness:
  "load_editable_aggregates_at_time_and_point exact no_uuid example_events clear
     [example_lot, example_lot_b] 20000000 ''X3''
   = Inr ([(''A'', (identity example_lot)\<lparr>code := ''CC-REC-1'', volume := 5\<rparr>),
           (''B'', (identity example_lot_b)\<lparr>code := ''CC-BLD-1'', volume := 10\<rparr>)],
          clear\<lparr>repo_new_aggregate_events := [(''B'', []), (''A'', [])],
                repo_deleted_event_models :=
                  [(WineLotEventStore, [example_events ! 4, example_events ! 5])]\<rparr>)
   \<and> edited_events example_events [''A'', ''B''] 20000000 ''X3''
       = [example_events ! 4, example_events ! 5]
   \<and> folded_events example_events [''A'', ''B''] 20000000 ''X3'' ''A''
       = [example_events ! 0, example_events ! 2]
   \<and> load_all exact (identity example_lot)
        (with_uuid no_uuid [example_events ! 0, example_events ! 2])
       = Inr ((identity example_lot)\<lparr>code := ''CC-REC-1'', volume := 5\<rparr>)"
proof -
  have dis: "distinct (map pk [example_lot, example_lot_b])"
    and mem: "example_lot \<in> set [example_lot, example_lot_b]"
    and pers: "\<not> adding example_lot"
    and keys: "map pk [example_lot, example_lot_b] = [''A'', ''B'']"
    and key: "pk example_lot = ''A''"
    by (simp_all add: example_lot_def example_lot_b_def)
  have edited: "edited_events example_events [''A'', ''B''] 20000000 ''X3''
       = [example_events ! 4, example_events ! 5]"
    by (simp add: edited_events_def events_after_and_including_def
        events_after_and_including_filter_def eval_defs)
  have folded: "folded_events example_events [''A'', ''B''] 20000000 ''X3'' ''A''
       = [example_events ! 0, example_events ! 2]"
    by (simp add: folded_events_def events_after_and_including_def
        events_after_and_including_filter_def eval_defs)
  then have nonempty: "folded_events example_events [''A'', ''B''] 20000000 ''X3'' ''A'' \<noteq> []"
    by simp
  from load_editable_at_time_and_point_result [OF load_editable_example dis mem pers]
       nonempty
  obtain a' where "load_all exact (identity example_lot)
        (with_uuid no_uuid (folded_events example_events [''A'', ''B''] 20000000 ''X3'' ''A''))
        = Inr a'"
    and "map_of [(''A'', (identity example_lot)\<lparr>code := ''CC-REC-1'', volume := 5\<rparr>),
                 (''B'', (identity example_lot_b)\<lparr>code := ''CC-BLD-1'', volume := 10\<rparr>)] ''A''
         = Some a'"
    unfolding keys key by blast
  then have "load_all exact (identity example_lot)
        (with_uuid no_uuid [example_events ! 0, example_events ! 2])
       = Inr ((identity example_lot)\<lparr>code := ''CC-REC-1'', volume := 5\<rparr>)"
    unfolding folded by simp
  with load_editable_example edited folded show ?thesis by blast
qed

text \<open>
  Claim C3 as stated (the rebuilt state is the fold of all the aggregate's events of the
  window, those with the sequence number being registered in addition) fails: the events
  that carry the sequence number are registered instead of being folded.  Editing the
  blend \<open>X3\<close> of the example, lot \<open>A\<close> is rebuilt with the volume 5 it had before the
  blend, whereas the fold of all its events of the window has the volume 10.
\<close>

theorem load_editable_at_time_and_point_counterexample:
  "load_editable_aggregates_at_time_and_point exact no_uuid example_events clear
     [example_lot, example_lot_b] 20000000 ''X3''
   = Inr ([(''A'', (identity example_lot)\<lparr>code := ''CC-REC-1'', volume := 5\<rparr>),
           (''B'', (identity example_lot_b)\<lparr>code := ''CC-BLD-1'', volume := 10\<rparr>)],
          clear\<lparr>repo_new_aggregate_events := [(''B'', []), (''A'', [])],
                repo_deleted_event_models :=
                  [(WineLotEventStore, [example_events ! 4, example_events ! 5])]\<rparr>)
   \<and> claimed_replay exact no_uuid example_events [''A'', ''B''] 20000000 ''X3'' example_lot
     = Inr ((identity example_lot)\<lparr>code := ''CC-REC-1'', volume := 10\<rparr>)"
proof -
  have "claimed_replay exact no_uuid example_events [''A'', ''B''] 20000000 ''X3'' example_lot
     = Inr ((identity example_lot)\<lparr>code := ''CC-REC-1'', volume := 10\<rparr>)"
    by (simp add: claimed_replay_def eval_defs identity_def
        events_after_and_including_def events_after_and_including_filter_def)
  with load_editable_example show ?thesis by blast
qed

end
